theory Spec2Isabelle
  imports Complex_Main "HOL-Library.Word"
begin

section \<open>AttestationSubsidy: storage, events and reverts\<close>

text \<open>
  The Solidity contract \<open>AttestationSubsidy\<close> (\<open>src/unnamed/part_000\<close>, lines 1 to 212).
  Solidity's \<open>uint256\<close>, \<open>bytes32\<close>, \<open>address\<close> and \<open>uint8\<close> are machine words;
  \<open>+\<close> and \<open>*\<close> on them wrap around, as in Solidity 0.5.
\<close>

type_synonym uint256 = "256 word"
type_synonym bytes32 = "256 word"
type_synonym address = "160 word"
type_synonym uint8 = "8 word"

text \<open>
  A failed \<open>require\<close> reverts the call. The constructors are the names the specification
  gives to the source's revert reasons:
  \<^item> \<open>Unauthorized\<close>: the \<open>onlyOwner\<close> modifier;
  \<^item> \<open>InvalidLimit\<close>: "maxSubsidisedAttestations has to be greater than 0" (line 59);
  \<^item> \<open>MalformedRequest\<close>: "two signatures are required (approve,request)" (lines 87 to 89);
  \<^item> \<open>LimitExceeded\<close>: "too many attestations requested" (line 90);
  \<^item> \<open>ReentrantCall\<close>: the \<open>nonReentrant\<close> modifier;
  \<^item> \<open>FeeOverflow\<close>: the overflow check of \<open>SafeMath.mul\<close> (line 208);
  \<^item> \<open>InvariantViolation\<close>: "meta-transaction didn not result in attestations being
    requested" (lines 103 to 106);
  \<^item> \<open>AlreadyInitialized\<close>: the \<open>initializer\<close> modifier;
  \<^item> \<open>NullRegistry\<close>: \<open>setRegistry\<close> refusing an address;
  \<^item> \<open>IndexOutOfBounds\<close>: an array read past its length;
  \<^item> \<open>DownstreamReverted\<close>: a call to another contract reverted, and the revert
    propagates;
  \<^item> \<open>CallFailed\<close>: a call nested deeper than the machine allows.
\<close>

datatype error =
    Unauthorized
  | InvalidLimit
  | MalformedRequest
  | LimitExceeded
  | ReentrantCall
  | FeeOverflow
  | InvariantViolation
  | AlreadyInitialized
  | NullRegistry
  | IndexOutOfBounds
  | DownstreamReverted
  | CallFailed

datatype event =
    AttestationSubsidised address uint256
  | MaxSubsidisedAttestationsSet uint256
  | OwnershipTransferred address address
  | RegistrySet address

text \<open>
  The storage of the contract: its own variable \<open>maxSubsidisedAttestations\<close> (line 35) and
  the variables of the contracts it inherits from (lines 23 to 30): the owner of
  \<open>Ownable\<close>, the flag of \<open>Initializable\<close>, the registry of \<open>UsingRegistry\<close> and the
  counter of \<open>ReentrancyGuard\<close>.
\<close>

record contract =
  owner :: address
  initialized :: bool
  registry :: address
  guardCounter :: uint256
  maxSubsidisedAttestations :: uint256

text \<open>
  A call that touches no other contract returns the revert reason, or the new storage and
  the events it emitted. A reverted call leaves the storage as it was: \<open>commit\<close> is the
  storage after the call.
\<close>

type_synonym outcome = "error + contract \<times> event list"

fun commit :: "contract \<Rightarrow> outcome \<Rightarrow> contract" where
  "commit c (Inl e) = c"
| "commit c (Inr (c', evs)) = c'"

subsection \<open>Inherited modifiers and functions\<close>

text \<open>
  Modelled from the spec: the modifier \<open>onlyOwner\<close> of \<open>Ownable\<close> (openzeppelin-solidity,
  not under src/). The specification: "callable only by the administrator identity; fails
  with \<open>Unauthorized\<close> otherwise". The body runs only when the sender is the stored owner;
  \<open>e\<close> is the failure the call returns otherwise.
\<close>

definition onlyOwner :: "address \<Rightarrow> contract \<Rightarrow> 'e \<Rightarrow> ('e + 'a) \<Rightarrow> ('e + 'a)" where
  "onlyOwner sender c e body = (if sender = owner c then body else Inl e)"

text \<open>
  Modelled from the spec: the modifier \<open>initializer\<close> of \<open>Initializable\<close>
  (\<open>../common/Initializable.sol\<close>, not under src/). The specification: the configuration "is
  created once at system initialization". The flag is set before the body runs, and a second
  initialization reverts.
\<close>

definition initializer :: "contract \<Rightarrow> (contract \<Rightarrow> outcome) \<Rightarrow> outcome" where
  "initializer c body =
     (if initialized c then Inl AlreadyInitialized else body (c\<lparr>initialized := True\<rparr>))"

text \<open>
  Modelled from the spec: \<open>_transferOwnership\<close> of \<open>Ownable\<close> (not under src/): the
  administrator identity becomes \<open>newOwner\<close>.
\<close>

definition transferOwnership_internal :: "address \<Rightarrow> contract \<Rightarrow> outcome" where
  "transferOwnership_internal newOwner c =
     Inr (c\<lparr>owner := newOwner\<rparr>, [OwnershipTransferred (owner c) newOwner])"

text \<open>
  Modelled from the spec: \<open>setRegistry\<close> of \<open>UsingRegistry\<close>
  (\<open>../common/UsingRegistry.sol\<close>, not under src/), which the specification counts as
  environment wiring. It is owner-only, stores the address of the registry and refuses the
  null address. No result below depends on when it reverts.
\<close>

definition setRegistry :: "address \<Rightarrow> address \<Rightarrow> contract \<Rightarrow> outcome" where
  "setRegistry sender registryAddress c =
     onlyOwner sender c Unauthorized
       (if registryAddress = 0 then Inl NullRegistry
        else Inr (c\<lparr>registry := registryAddress\<rparr>, [RegistrySet registryAddress]))"

subsection \<open>The limit: \<open>setMaxSubsidisedAttestations\<close> and \<open>initialize\<close>\<close>

text \<open>Lines 58 to 62.\<close>

definition setMaxSubsidisedAttestations :: "address \<Rightarrow> uint256 \<Rightarrow> contract \<Rightarrow> outcome" where
  "setMaxSubsidisedAttestations sender newMax c =
     onlyOwner sender c Unauthorized
       (if \<not> newMax > 0 then Inl InvalidLimit
        else Inr (c\<lparr>maxSubsidisedAttestations := newMax\<rparr>,
                  [MaxSubsidisedAttestationsSet newMax]))"

text \<open>
  Sequencing of two storage-only steps inside one call: the second runs on the storage the
  first left, the events are appended, and a revert of either reverts the call.
\<close>

definition andThen :: "outcome \<Rightarrow> (contract \<Rightarrow> outcome) \<Rightarrow> outcome" where
  "andThen first second =
     (case first of
        Inl e \<Rightarrow> Inl e
      | Inr (c, evs) \<Rightarrow>
          (case second c of Inl e \<Rightarrow> Inl e | Inr (c', evs') \<Rightarrow> Inr (c', evs @ evs')))"

text \<open>Lines 45 to 52.\<close>

definition initialize :: "address \<Rightarrow> address \<Rightarrow> uint256 \<Rightarrow> contract \<Rightarrow> outcome" where
  "initialize sender registryAddress newMax c =
     initializer c (\<lambda>c1.
       andThen (andThen (transferOwnership_internal sender c1)
                        (setRegistry sender registryAddress))
               (setMaxSubsidisedAttestations sender newMax))"

section \<open>The subsidised request: calls to other contracts\<close>

text \<open>
  The arguments of \<open>abi.encodeWithSignature\<close> (lines 168 and 193): the signature string as
  the source writes it, and the encoded values.
\<close>

datatype abi_arg = AbiAddress address | AbiUint256 uint256 | AbiBytes32 bytes32

datatype calldata = EncodeWithSignature string "abi_arg list"

text \<open>
  A call back into this contract, made by another contract while it answers a call of this
  one: the sender first, then the arguments of the function called. The functions are the
  three of the source and \<open>setRegistry\<close>.
\<close>

datatype reentry =
    ReRequest address address bytes32 uint256 "uint8 list" "bytes32 list" "bytes32 list"
  | ReSetMax address uint256
  | ReInitialize address address uint256
  | ReSetRegistry address address

text \<open>
  Every call that leaves the contract, with the callee's address first and then the
  arguments: the two registry lookups of \<open>UsingRegistry\<close>, the two views of the
  attestations contract, the meta-transaction of the wallet and the token transfer. The
  last entry records a call back into this contract made during one of them, with its
  revert reason, or \<open>None\<close> when it succeeded.
\<close>

datatype ext_call =
    GetStableToken address
  | GetAttestations address
  | GetAttestationStats address bytes32 address
  | GetAttestationRequestFee address address
  | ExecuteMetaTransaction address address uint256 calldata uint8 bytes32 bytes32
  | Transfer address address uint256
  | Reentered reentry "error option"

text \<open>
  What a contract does when it is called with a state-changing call: it returns a value
  and leaves a ledger state, or it reverts, or it calls back into this contract from a
  ledger state and goes on from the outcome of that call and the ledger state it left.
\<close>

datatype ('w, 'a) callee =
    Returns 'a 'w
  | Reverts
  | Reenters 'w reentry "error option \<Rightarrow> 'w \<Rightarrow> ('w, 'a) callee"

text \<open>
  The other contracts are not under src/ (only their interfaces are imported, lines 5 to
  18), so they are parameters: \<open>'w\<close> is the state of the rest of the ledger. A view
  answers with a value in a ledger state, \<open>None\<close> when it reverts; it cannot change any
  state. A state-changing call answers with what the callee does. Nothing is assumed about
  what they compute.
\<close>

record 'w env =
  registryStableToken :: "address \<Rightarrow> 'w \<Rightarrow> address option"
  registryAttestations :: "address \<Rightarrow> 'w \<Rightarrow> address option"
  attestationStats :: "address \<Rightarrow> bytes32 \<Rightarrow> address \<Rightarrow> 'w \<Rightarrow> (uint256 \<times> uint256) option"
  attestationRequestFee :: "address \<Rightarrow> address \<Rightarrow> 'w \<Rightarrow> uint256 option"
  walletExecuteMetaTransaction ::
    "address \<Rightarrow> address \<Rightarrow> uint256 \<Rightarrow> calldata \<Rightarrow> uint8 \<Rightarrow> bytes32 \<Rightarrow> bytes32 \<Rightarrow> 'w
      \<Rightarrow> ('w, uint8 list) callee"
  tokenTransfer :: "address \<Rightarrow> address \<Rightarrow> uint256 \<Rightarrow> 'w \<Rightarrow> ('w, bool) callee"

text \<open>
  How this contract answers a call back: the outcome (a revert reason or \<open>None\<close>), and
  the storage and the ledger state after it, which are the ones before it when it reverts.
\<close>

type_synonym 'w reentrance = "reentry \<Rightarrow> contract \<Rightarrow> 'w \<Rightarrow> error option \<times> contract \<times> 'w"

text \<open>
  A step of the call runs on the storage, in a ledger state and with the list of the calls
  made so far; it reverts with a reason, or returns a value, the new storage, the new
  ledger state and the longer list. The list is kept on a revert too, so that a theorem can
  say which calls a failed request made.
\<close>

type_synonym ('w, 'a) step =
  "contract \<Rightarrow> 'w \<Rightarrow> ext_call list
    \<Rightarrow> (error \<times> ext_call list) + ('a \<times> contract \<times> 'w \<times> ext_call list)"

definition ret :: "'a \<Rightarrow> ('w, 'a) step" where
  "ret x = (\<lambda>c w t. Inr (x, c, w, t))"

definition revert :: "error \<Rightarrow> ('w, 'a) step" where
  "revert e = (\<lambda>c w t. Inl (e, t))"

definition require :: "bool \<Rightarrow> error \<Rightarrow> ('w, unit) step" where
  "require b e = (if b then ret () else revert e)"

definition bnd :: "('w, 'a) step \<Rightarrow> ('a \<Rightarrow> ('w, 'b) step) \<Rightarrow> ('w, 'b) step" where
  "bnd m f = (\<lambda>c w t. case m c w t of Inl x \<Rightarrow> Inl x | Inr (a, c', w', t') \<Rightarrow> f a c' w' t')"

text \<open>A read of the storage.\<close>

definition sload :: "('w, contract) step" where
  "sload = (\<lambda>c w t. Inr (c, c, w, t))"

definition staticcall :: "ext_call \<Rightarrow> ('w \<Rightarrow> 'a option) \<Rightarrow> ('w, 'a) step" where
  "staticcall lbl f =
     (\<lambda>c w t. case f w of
                 None \<Rightarrow> Inl (DownstreamReverted, t @ [lbl])
               | Some a \<Rightarrow> Inr (a, c, w, t @ [lbl]))"

text \<open>
  The callee at work: each call back is answered by \<open>reenter\<close> on the storage as it is at
  that moment, and recorded.
\<close>

primrec run_callee ::
  "'w reentrance \<Rightarrow> ('w, 'a) callee \<Rightarrow> contract \<Rightarrow> ext_call list
    \<Rightarrow> ('a \<times> contract \<times> 'w \<times> ext_call list) option" where
  "run_callee reenter (Returns a w) = (\<lambda>c t. Some (a, c, w, t))"
| "run_callee reenter Reverts = (\<lambda>c t. None)"
| "run_callee reenter (Reenters w re k) =
     (\<lambda>c t. case reenter re c w of
               (res, c', w') \<Rightarrow> run_callee reenter (k res w') c' (t @ [Reentered re res]))"

definition extcall ::
  "'w reentrance \<Rightarrow> ext_call \<Rightarrow> ('w \<Rightarrow> ('w, 'a) callee) \<Rightarrow> ('w, 'a) step" where
  "extcall reenter lbl f =
     (\<lambda>c w t. case run_callee reenter (f w) c (t @ [lbl]) of
                 None \<Rightarrow> Inl (DownstreamReverted, t @ [lbl])
               | Some (a, c', w', t') \<Rightarrow> Inr (a, c', w', t'))"

text \<open>An array read \<open>xs[i]\<close>: Solidity reverts past the end of the array.\<close>

definition index :: "'a list \<Rightarrow> nat \<Rightarrow> ('w, 'a) step" where
  "index xs i = (if i < length xs then ret (xs ! i) else revert IndexOutOfBounds)"

text \<open>
  \<open>getStableToken()\<close> and \<open>getAttestations()\<close> of \<open>UsingRegistry\<close> (not under src/): each
  asks the stored registry for the address of a contract.
\<close>

definition getStableToken :: "'w env \<Rightarrow> ('w, address) step" where
  "getStableToken env =
     bnd sload (\<lambda>c.
     staticcall (GetStableToken (registry c)) (registryStableToken env (registry c)))"

definition getAttestations :: "'w env \<Rightarrow> ('w, address) step" where
  "getAttestations env =
     bnd sload (\<lambda>c.
     staticcall (GetAttestations (registry c)) (registryAttestations env (registry c)))"

text \<open>
  Modelled from the spec: \<open>SafeMath.mul\<close> (openzeppelin-solidity, not under src/). The
  specification: "overflow-checked multiplication; on overflow, fails with \<open>FeeOverflow\<close>
  rather than wrapping". The check is the library's: the wrapped product, divided by the
  first factor, must give the second one back.
\<close>

definition SafeMath_mul :: "uint256 \<Rightarrow> uint256 \<Rightarrow> error + uint256" where
  "SafeMath_mul a b =
     (if a = 0 then Inr 0
      else (let c = a * b in if c div a = b then Inr c else Inl FeeOverflow))"

text \<open>Lines 145 to 151: the second component of the statistics is the request counter.\<close>

definition getAttestationRequests :: "'w env \<Rightarrow> bytes32 \<Rightarrow> address \<Rightarrow> ('w, uint256) step" where
  "getAttestationRequests env identifier account =
     bnd (getAttestations env) (\<lambda>attestations.
     bnd (staticcall (GetAttestationStats attestations identifier account)
            (attestationStats env attestations identifier account)) (\<lambda>stats.
     ret (snd stats)))"

text \<open>Lines 206 to 211.\<close>

definition calculateTotalFee :: "'w env \<Rightarrow> uint256 \<Rightarrow> ('w, uint256) step" where
  "calculateTotalFee env attestationsRequested =
     bnd (getAttestations env) (\<lambda>attestations.
     bnd (getStableToken env) (\<lambda>stableToken.
     bnd (staticcall (GetAttestationRequestFee attestations stableToken)
            (attestationRequestFee env attestations stableToken)) (\<lambda>fee.
     (case SafeMath_mul fee attestationsRequested of
        Inl e \<Rightarrow> revert e
      | Inr feeTotal \<Rightarrow> ret feeTotal))))"

text \<open>Lines 161 to 174. The signature string is the source's.\<close>

definition metaApproveCUSD ::
  "'w reentrance \<Rightarrow> 'w env \<Rightarrow> address \<Rightarrow> uint256 \<Rightarrow> uint8 \<Rightarrow> bytes32 \<Rightarrow> bytes32
    \<Rightarrow> ('w, unit) step" where
  "metaApproveCUSD reenter env metaWallet totalFee v r s =
     bnd (getAttestations env) (\<lambda>attestations.
     (let callData = EncodeWithSignature ''approve(address,value)''
                       [AbiAddress attestations, AbiUint256 totalFee] in
      bnd (getStableToken env) (\<lambda>stableToken.
      bnd (extcall reenter (ExecuteMetaTransaction metaWallet stableToken 0 callData v r s)
             (walletExecuteMetaTransaction env metaWallet stableToken 0 callData v r s))
          (\<lambda>returned. ret ()))))"

text \<open>Lines 185 to 200.\<close>

definition metaRequestAttestations ::
  "'w reentrance \<Rightarrow> 'w env \<Rightarrow> address \<Rightarrow> bytes32 \<Rightarrow> uint256 \<Rightarrow> uint8 \<Rightarrow> bytes32 \<Rightarrow> bytes32
    \<Rightarrow> ('w, unit) step" where
  "metaRequestAttestations reenter env metaWallet identifier attestationsRequested v r s =
     bnd (getStableToken env) (\<lambda>stableToken.
     (let callData = EncodeWithSignature ''request(bytes32,uint256,address)''
                       [AbiBytes32 identifier, AbiUint256 attestationsRequested,
                        AbiAddress stableToken] in
      bnd (getAttestations env) (\<lambda>attestations.
      bnd (extcall reenter (ExecuteMetaTransaction metaWallet attestations 0 callData v r s)
             (walletExecuteMetaTransaction env metaWallet attestations 0 callData v r s))
          (\<lambda>returned. ret ()))))"

text \<open>
  Lines 123 to 138, \<open>_requestAttestationsWithSubsidy\<close>: the fee, the approval through the
  wallet, the transfer of the subsidy (its boolean result is not looked at) and the request
  through the wallet.
\<close>

definition requestAttestationsWithSubsidy_internal ::
  "'w reentrance \<Rightarrow> 'w env \<Rightarrow> address \<Rightarrow> bytes32 \<Rightarrow> uint256 \<Rightarrow> uint8 list \<Rightarrow> bytes32 list
    \<Rightarrow> bytes32 list \<Rightarrow> ('w, uint256) step" where
  "requestAttestationsWithSubsidy_internal reenter env beneficiaryMetaWallet identifier
       attestationsRequested v r s =
     bnd (calculateTotalFee env attestationsRequested) (\<lambda>totalFee.
     bnd (getStableToken env) (\<lambda>cUSD.
     bnd (index v 0) (\<lambda>v0. bnd (index r 0) (\<lambda>r0. bnd (index s 0) (\<lambda>s0.
     bnd (metaApproveCUSD reenter env beneficiaryMetaWallet totalFee v0 r0 s0) (\<lambda>u1.
     bnd (extcall reenter (Transfer cUSD beneficiaryMetaWallet totalFee)
            (tokenTransfer env cUSD beneficiaryMetaWallet totalFee)) (\<lambda>sent.
     bnd (index v 1) (\<lambda>v1. bnd (index r 1) (\<lambda>r1. bnd (index s 1) (\<lambda>s1.
     bnd (metaRequestAttestations reenter env beneficiaryMetaWallet identifier
            attestationsRequested v1 r1 s1) (\<lambda>u2.
     ret totalFee)))))))))))"

text \<open>Lines 87 to 108: the body of \<open>requestAttestationsWithSubsidy\<close>, inside its modifiers.\<close>

definition requestAttestationsWithSubsidy_body ::
  "'w reentrance \<Rightarrow> 'w env \<Rightarrow> address \<Rightarrow> bytes32 \<Rightarrow> uint256 \<Rightarrow> uint8 list \<Rightarrow> bytes32 list
    \<Rightarrow> bytes32 list \<Rightarrow> ('w, event list) step" where
  "requestAttestationsWithSubsidy_body reenter env beneficiaryMetaWallet identifier
       attestationsRequested v r s =
     bnd (require (length v = 2) MalformedRequest) (\<lambda>u1.
     bnd (require (length r = 2) MalformedRequest) (\<lambda>u2.
     bnd (require (length s = 2) MalformedRequest) (\<lambda>u3.
     bnd sload (\<lambda>c.
     bnd (require (attestationsRequested < maxSubsidisedAttestations c) LimitExceeded) (\<lambda>u4.
     bnd (getAttestationRequests env identifier beneficiaryMetaWallet) (\<lambda>requestsBefore.
     bnd (requestAttestationsWithSubsidy_internal reenter env beneficiaryMetaWallet identifier
            attestationsRequested v r s) (\<lambda>totalFee.
     bnd (getAttestationRequests env identifier beneficiaryMetaWallet) (\<lambda>requestsAfter.
     bnd (require (requestsBefore + attestationsRequested = requestsAfter)
            InvariantViolation) (\<lambda>u5.
     ret [AttestationSubsidised beneficiaryMetaWallet totalFee])))))))))"

text \<open>
  The result of a call that reaches other contracts: the revert reason and the calls made
  before it, or the new storage, the new ledger state, the events the call itself emitted
  and the calls made.
\<close>

type_synonym 'w chain_outcome =
  "(error \<times> ext_call list) + (contract \<times> 'w \<times> event list \<times> ext_call list)"

text \<open>
  Modelled from the spec: the modifier \<open>nonReentrant\<close> of \<open>ReentrancyGuard\<close>
  (\<open>../common/libraries/ReentrancyGuard.sol\<close>, not under src/), the specification's lock
  "scoped to the lifetime of one orchestration call", whose failure is \<open>ReentrantCall\<close>.
  The guard is a counter in the storage: the modifier adds one to it and remembers the
  value, runs the body, and then reverts unless the counter still has that value. A call
  made while another is in flight is therefore not refused when it enters; when it
  succeeds it moves the counter, and the call in flight reverts at its own comparison.
\<close>

definition nonReentrant :: "contract \<Rightarrow> (contract \<Rightarrow> 'w chain_outcome) \<Rightarrow> 'w chain_outcome" where
  "nonReentrant c body =
     (let c1 = c\<lparr>guardCounter := guardCounter c + 1\<rparr>;
          localCounter = guardCounter c1
      in (case body c1 of
            Inl failure \<Rightarrow> Inl failure
          | Inr (c', w', evs, t) \<Rightarrow>
              if localCounter = guardCounter c' then Inr (c', w', evs, t)
              else Inl (ReentrantCall, t)))"

text \<open>
  Lines 79 to 109. The modifiers run in the order the source lists them, \<open>onlyOwner\<close> and
  then \<open>nonReentrant\<close>, around the body; the body starts with no call made. \<open>reenter\<close> is
  how the contract answers the calls back that the wallet and the token make meanwhile.
\<close>

definition requestAttestationsWithSubsidy ::
  "'w reentrance \<Rightarrow> 'w env \<Rightarrow> address \<Rightarrow> address \<Rightarrow> bytes32 \<Rightarrow> uint256 \<Rightarrow> uint8 list
    \<Rightarrow> bytes32 list \<Rightarrow> bytes32 list \<Rightarrow> contract \<Rightarrow> 'w \<Rightarrow> 'w chain_outcome" where
  "requestAttestationsWithSubsidy reenter env sender beneficiaryMetaWallet identifier
       attestationsRequested v r s c w =
     onlyOwner sender c (Unauthorized, [])
       (nonReentrant c (\<lambda>c1.
          (case requestAttestationsWithSubsidy_body reenter env beneficiaryMetaWallet identifier
                  attestationsRequested v r s c1 w [] of
             Inl failure \<Rightarrow> Inl failure
           | Inr (evs, c', w', t) \<Rightarrow> Inr (c', w', evs, t))))"

text \<open>
  The storage and the ledger state after a call: a reverted call changes neither.
\<close>

fun settle :: "contract \<times> 'w \<Rightarrow> 'w chain_outcome \<Rightarrow> contract \<times> 'w" where
  "settle (c, w) (Inl failure) = (c, w)"
| "settle (c, w) (Inr (c', w', evs, t)) = (c', w')"

text \<open>The events a call leaves in the log: none when it reverts.\<close>

fun emitted :: "'w chain_outcome \<Rightarrow> event list" where
  "emitted (Inl failure) = []"
| "emitted (Inr (c', w', evs, t)) = evs"

text \<open>The calls to other contracts a call made, reverted or not.\<close>

fun calls_made :: "'w chain_outcome \<Rightarrow> ext_call list" where
  "calls_made (Inl (e, t)) = t"
| "calls_made (Inr (c', w', evs, t)) = t"

text \<open>The revert reason of a call, \<open>None\<close> when it succeeded.\<close>

fun failure_of :: "'w chain_outcome \<Rightarrow> error option" where
  "failure_of (Inl (e, t)) = Some e"
| "failure_of (Inr x) = None"

fun failure_of_outcome :: "outcome \<Rightarrow> error option" where
  "failure_of_outcome (Inl e) = Some e"
| "failure_of_outcome (Inr x) = None"

subsection \<open>Calls back into the contract\<close>

text \<open>
  One call back, answered by the function it names; the calls back that this function
  meets in turn are answered by \<open>reenter\<close>.
\<close>

fun perform :: "'w reentrance \<Rightarrow> 'w env \<Rightarrow> 'w reentrance" where
  "perform reenter env (ReRequest sender wallet identifier n v r s) c w =
     (let res = requestAttestationsWithSubsidy reenter env sender wallet identifier n v r s c w
      in (failure_of res, settle (c, w) res))"
| "perform reenter env (ReSetMax sender newMax) c w =
     (let res = setMaxSubsidisedAttestations sender newMax c
      in (failure_of_outcome res, commit c res, w))"
| "perform reenter env (ReInitialize sender registryAddress newMax) c w =
     (let res = initialize sender registryAddress newMax c
      in (failure_of_outcome res, commit c res, w))"
| "perform reenter env (ReSetRegistry sender registryAddress) c w =
     (let res = setRegistry sender registryAddress c
      in (failure_of_outcome res, commit c res, w))"

text \<open>
  The contract as the other contracts meet it: a call back is answered by the contract's
  own functions, and the calls back made inside it likewise, down to \<open>depth\<close> nested calls;
  a call nested deeper than that fails, as a call past the call depth of the machine does.
\<close>

primrec reenter_at :: "nat \<Rightarrow> 'w env \<Rightarrow> 'w reentrance" where
  "reenter_at 0 env = (\<lambda>re c w. (Some CallFailed, c, w))"
| "reenter_at (Suc depth) env = perform (reenter_at depth env) env"

text \<open>The calls back recorded in a list of calls that were successful requests.\<close>

fun nested_request :: "ext_call \<Rightarrow> bool" where
  "nested_request (Reentered (ReRequest sender wallet identifier n v r s) None) = True"
| "nested_request other = False"

text \<open>
  The request counter of a pair as a plain read of a ledger state (the view of lines 145 to
  151 without the bookkeeping of calls): \<open>None\<close> when a lookup reverts.
\<close>

definition readRequests :: "'w env \<Rightarrow> contract \<Rightarrow> bytes32 \<Rightarrow> address \<Rightarrow> 'w \<Rightarrow> uint256 option" where
  "readRequests env c identifier account w =
     (case getAttestationRequests env identifier account c w [] of
        Inl failure \<Rightarrow> None
      | Inr (requests, c', w', t) \<Rightarrow> Some requests)"

subsection \<open>Properties that steps maintain\<close>

text \<open>
  A step maintains a property of the storage and of the list of calls when every run that
  returns from a state with the property ends in a state with it.
\<close>

definition preserves :: "(contract \<Rightarrow> ext_call list \<Rightarrow> bool) \<Rightarrow> ('w, 'a) step \<Rightarrow> bool" where
  "preserves P m =
     (\<forall>c w t a c' w' t'. P c t \<longrightarrow> m c w t = Inr (a, c', w', t') \<longrightarrow> P c' t')"


subsection \<open>Concrete ledgers\<close>

text \<open>
  A ledger that is only the request counter, with a unit price of 2: the wallet executes a
  \<open>request\<close> meta-transaction by adding the requested number to the counter, and every
  other call succeeds without changing the ledger. No contract calls back.
\<close>

definition meteringLedger :: "uint256 env" where
  "meteringLedger =
     \<lparr> registryStableToken = (\<lambda>reg w. Some 1),
       registryAttestations = (\<lambda>reg w. Some 2),
       attestationStats = (\<lambda>att identifier account w. Some (0, w)),
       attestationRequestFee = (\<lambda>att token w. Some 2),
       walletExecuteMetaTransaction = (\<lambda>wallet dest val callData v r s w.
         (case callData of
            EncodeWithSignature sig [AbiBytes32 identifier, AbiUint256 n, AbiAddress token] \<Rightarrow>
              Returns [] (w + n)
          | _ \<Rightarrow> Returns [] w)),
       tokenTransfer = (\<lambda>token recipient amount w. Returns True w) \<rparr>"

text \<open>
  The same ledger with a metering service that reports no error and counts nothing.
\<close>

definition silentLedger :: "uint256 env" where
  "silentLedger =
     meteringLedger \<lparr> walletExecuteMetaTransaction :=
       (\<lambda>wallet dest val callData v r s w. Returns [] w) \<rparr>"

text \<open>
  The metering ledger with a wallet that calls back: while it executes the \<open>approve\<close>
  meta-transaction it makes the call \<open>re\<close> to this contract, and goes on whatever the
  outcome.
\<close>

definition reenteringLedger :: "reentry \<Rightarrow> uint256 env" where
  "reenteringLedger re =
     meteringLedger \<lparr> walletExecuteMetaTransaction :=
       (\<lambda>wallet dest val callData v r s w.
         (case callData of
            EncodeWithSignature sig [AbiBytes32 identifier, AbiUint256 n, AbiAddress token] \<Rightarrow>
              Returns [] (w + n)
          | _ \<Rightarrow> Reenters w re (\<lambda>res w'. Returns [] w'))) \<rparr>"

text \<open>The metering ledger with a unit price of 1.\<close>

definition unitLedger :: "uint256 env" where
  "unitLedger = meteringLedger \<lparr> attestationRequestFee := (\<lambda>att token w. Some 1) \<rparr>"

text \<open>An initialised contract owned by address 7, with the limit 10.\<close>

definition deployed :: contract where
  "deployed = \<lparr> owner = 7, initialized = True, registry = 9, guardCounter = 0,
                maxSubsidisedAttestations = 10 \<rparr>"

text \<open>The storage of a contract before its initialisation: every variable is zero.\<close>

definition fresh :: contract where
  "fresh = \<lparr> owner = 0, initialized = False, registry = 0, guardCounter = 0,
             maxSubsidisedAttestations = 0 \<rparr>"

subsection \<open>Reachable storage\<close>

text \<open>
  The storage the contract can be in once it has been initialised: a successful
  \<open>initialize\<close> of a contract that was not, and then any call of any of its functions, by
  any sender with any arguments and any behaviour of the other contracts, their calls back
  included, reverted or not. The functions inherited from \<open>Ownable\<close> and \<open>UsingRegistry\<close>
  write the owner and the registry only; the last rule lets the owner become anyone. In the
  rule of the request the ledger states are natural numbers, which can encode any countable
  ledger.
\<close>

inductive reachable :: "contract \<Rightarrow> bool" where
  reach_initialize:
    "\<not> initialized c0 \<Longrightarrow> initialize sender registryAddress newMax c0 = Inr (c, evs)
      \<Longrightarrow> reachable c"
| reach_initialize_again:
    "reachable c \<Longrightarrow> reachable (commit c (initialize sender registryAddress newMax c))"
| reach_setMax:
    "reachable c \<Longrightarrow> reachable (commit c (setMaxSubsidisedAttestations sender newMax c))"
| reach_setRegistry:
    "reachable c \<Longrightarrow> reachable (commit c (setRegistry sender registryAddress c))"
| reach_request:
    "reachable c \<Longrightarrow>
       reachable (fst (settle (c, w)
         (requestAttestationsWithSubsidy (reenter_at depth env) env sender wallet identifier
            n v r s c (w :: nat))))"
| reach_owner:
    "reachable c \<Longrightarrow> reachable (c\<lparr>owner := newOwner\<rparr>)"

section \<open>Request validation\<close>

text \<open>
  \<open>src/packages/phone-number-privacy/common/src/utils/input-validation.ts\<close>. A request
  body is a parsed JSON object, typed \<open>any\<close>: its values are JavaScript values. A number is
  a real here: JSON has no NaN, and the comparison of two numbers is exact. A string is its
  list of characters.
\<close>

datatype js_value =
    JUndefined
  | JNull
  | JBool bool
  | JNumber real
  | JString string
  | JArray "js_value list"
  | JObject "(string \<times> js_value) list"

type_synonym requestBody = "(string \<times> js_value) list"

text \<open>\<open>requestBody.k\<close>: the value of the property, \<open>undefined\<close> when the object has none.\<close>

definition getProp :: "requestBody \<Rightarrow> string \<Rightarrow> js_value" where
  "getProp body k = (case map_of body k of None \<Rightarrow> JUndefined | Some x \<Rightarrow> x)"

text \<open>
  What \<open>!x\<close> negates: \<open>undefined\<close>, \<open>null\<close>, \<open>false\<close>, \<open>0\<close> and the empty string are
  falsy, every other value is truthy.
\<close>

fun truthy :: "js_value \<Rightarrow> bool" where
  "truthy JUndefined = False"
| "truthy JNull = False"
| "truthy (JBool b) = b"
| "truthy (JNumber x) = (x \<noteq> 0)"
| "truthy (JString s) = (s \<noteq> [])"
| "truthy (JArray xs) = True"
| "truthy (JObject kvs) = True"

text \<open>
  Lines 28 to 35. \<open>Date.now()\<close> and the constant \<open>REQUEST_EXPIRY_WINDOW_MS\<close> (of
  \<open>./constants\<close>, not under src/) are parameters, both in milliseconds. The second disjunct
  is the test \<open>typeof requestBody.timestamp === 'number'\<close> and the comparison.
\<close>

definition hasValidTimestamp :: "int \<Rightarrow> int \<Rightarrow> requestBody \<Rightarrow> bool" where
  "hasValidTimestamp now REQUEST_EXPIRY_WINDOW_MS body =
     (\<not> truthy (getProp body ''timestamp'') \<or>
      (case getProp body ''timestamp'' of
         JNumber t \<Rightarrow> t > of_int (now - REQUEST_EXPIRY_WINDOW_MS)
       | _ \<Rightarrow> False))"

text \<open>
  Modelled from the spec: \<open>trimLeading0x\<close> of \<open>@celo/utils/lib/address\<close> (not under src/),
  which removes a leading \<open>0x\<close>.
\<close>

definition trimLeading0x :: "string \<Rightarrow> string" where
  "trimLeading0x input = (if take 2 input = ''0x'' then drop 2 input else input)"

text \<open>
  \<open>Buffer.byteLength(s, 'hex')\<close> of the Node.js runtime: half the length of the string,
  rounded down, whatever its characters are.
\<close>

definition byteLength_hex :: "string \<Rightarrow> nat" where
  "byteLength_hex str = length str div 2"

text \<open>Lines 41 to 43.\<close>

definition isByte32 :: "string \<Rightarrow> bool" where
  "isByte32 hashedData = (byteLength_hex (trimLeading0x hashedData) = 32)"

text \<open>
  \<open>isByte32\<close> applied to a value of the body: a value that is not a string has no
  \<open>startsWith\<close>, and the call throws a \<open>TypeError\<close>.
\<close>

datatype js_error = TypeError

definition isByte32_of :: "js_value \<Rightarrow> js_error + js_value" where
  "isByte32_of x = (case x of JString str \<Rightarrow> Inr (JBool (isByte32 str)) | _ \<Rightarrow> Inl TypeError)"

text \<open>Lines 24 to 26: \<open>a && b\<close> is \<open>a\<close> when \<open>a\<close> is falsy, and \<open>b\<close> otherwise.\<close>

definition hasValidPhoneNumberHash :: "requestBody \<Rightarrow> js_error + js_value" where
  "hasValidPhoneNumberHash body =
     (if truthy (getProp body ''hashedPhoneNumber'')
      then isByte32_of (getProp body ''hashedPhoneNumber'')
      else Inr (getProp body ''hashedPhoneNumber''))"

text \<open>Lines 37 to 39.\<close>

definition phoneNumberHashIsValidIfExists :: "requestBody \<Rightarrow> js_error + js_value" where
  "phoneNumberHashIsValidIfExists body =
     (if \<not> truthy (getProp body ''hashedPhoneNumber'') then Inr (JBool True)
      else isByte32_of (getProp body ''hashedPhoneNumber''))"

section \<open>Properties of the subsidised request\<close>

subsection \<open>Steps and their failures\<close>

lemmas step_defs = bnd_def ret_def revert_def require_def sload_def staticcall_def index_def

lemma bnd_Inl:
  "bnd m f c w t = Inl x \<longleftrightarrow>
     (m c w t = Inl x \<or> (\<exists>a c' w' t'. m c w t = Inr (a, c', w', t') \<and> f a c' w' t' = Inl x))"
  by (auto simp: bnd_def split: sum.splits)

lemma bnd_Inr:
  "bnd m f c w t = Inr y \<longleftrightarrow>
     (\<exists>a c' w' t'. m c w t = Inr (a, c', w', t') \<and> f a c' w' t' = Inr y)"
  by (auto simp: bnd_def split: sum.splits)

lemma getAttestationRequests_unfold:
  "getAttestationRequests env identifier account c w t =
     (case registryAttestations env (registry c) w of
        None \<Rightarrow> Inl (DownstreamReverted, t @ [GetAttestations (registry c)])
      | Some att \<Rightarrow>
          (case attestationStats env att identifier account w of
             None \<Rightarrow> Inl (DownstreamReverted,
                       t @ [GetAttestations (registry c), GetAttestationStats att identifier account])
           | Some stats \<Rightarrow> Inr (snd stats, c, w,
                       t @ [GetAttestations (registry c), GetAttestationStats att identifier account])))"
  by (simp add: getAttestationRequests_def getAttestations_def step_defs split: option.splits)

lemma getAttestationRequests_Inr:
  "getAttestationRequests env identifier account c w t = Inr (x, c', w', t') \<Longrightarrow>
     c' = c \<and> w' = w \<and> readRequests env c identifier account w = Some x"
  by (auto simp: readRequests_def getAttestationRequests_unfold split: option.splits)

lemma getAttestationRequests_Inl:
  "getAttestationRequests env identifier account c w t = Inl (e, t') \<Longrightarrow> e = DownstreamReverted"
  by (auto simp: getAttestationRequests_unfold split: option.splits)

lemma getAttestationRequests_guard:
  "getAttestationRequests env identifier account (c\<lparr>guardCounter := g\<rparr>) w t =
     (case getAttestationRequests env identifier account c w t of
        Inl failure \<Rightarrow> Inl failure
      | Inr (x, c', w', t') \<Rightarrow> Inr (x, c'\<lparr>guardCounter := g\<rparr>, w', t'))"
  by (simp add: getAttestationRequests_unfold split: option.splits)

lemma readRequests_guard:
  "readRequests env (c\<lparr>guardCounter := g\<rparr>) = readRequests env c"
  by (simp add: readRequests_def getAttestationRequests_guard fun_eq_iff split: sum.splits)

lemma SafeMath_mul_checked:
  "SafeMath_mul a b = (if unat a * unat b < 2 ^ 256 then Inr (a * b) else Inl FeeOverflow)"
proof (cases "a = 0")
  case True
  then show ?thesis by (simp add: SafeMath_mul_def)
next
  case False
  then have pos: "0 < unat a" by (simp add: unat_gt_0)
  have prod: "unat (a * b) = (unat a * unat b) mod 2 ^ 256"
    by (simp add: unat_word_ariths)
  have quot: "unat ((a * b) div a) = unat (a * b) div unat a"
    by (simp add: unat_div)
  show ?thesis
  proof (cases "unat a * unat b < 2 ^ 256")
    case True
    then have "unat (a * b) = unat a * unat b" using prod by simp
    then have "unat ((a * b) div a) = unat b" using quot pos by simp
    then have "(a * b) div a = b" by (simp add: word_unat_eq_iff)
    then show ?thesis using True False by (simp add: SafeMath_mul_def)
  next
    case over: False
    have "(a * b) div a \<noteq> b"
    proof
      assume eq: "(a * b) div a = b"
      then have "unat b = unat (a * b) div unat a" using quot by simp
      then have "unat a * unat b \<le> unat (a * b)"
        by simp
      moreover have "unat (a * b) < 2 ^ 256" using unsigned_less [of "a * b"] by simp
      ultimately show False using over by simp
    qed
    then show ?thesis using over False by (simp add: SafeMath_mul_def Let_def)
  qed
qed

lemma getStableToken_Inl:
  "getStableToken env c w t = Inl (e, t') \<Longrightarrow> e = DownstreamReverted"
  by (auto simp: getStableToken_def step_defs split: option.splits)

lemma getAttestations_Inl:
  "getAttestations env c w t = Inl (e, t') \<Longrightarrow> e = DownstreamReverted"
  by (auto simp: getAttestations_def step_defs split: option.splits)

lemma staticcall_Inl: "staticcall lbl f c w t = Inl (e, t') \<Longrightarrow> e = DownstreamReverted"
  by (auto simp: step_defs split: option.splits)

lemma extcall_Inl: "extcall reenter lbl f c w t = Inl (e, t') \<Longrightarrow> e = DownstreamReverted"
  by (auto simp: extcall_def split: option.splits)

lemma index_Inl: "index xs i c w t = Inl (e, t') \<Longrightarrow> e = IndexOutOfBounds"
  by (auto simp: step_defs split: if_splits)

lemma calculateTotalFee_Inl:
  "calculateTotalFee env n c w t = Inl (e, t') \<Longrightarrow> e = DownstreamReverted \<or> e = FeeOverflow"
  unfolding calculateTotalFee_def bnd_Inl
  by (auto simp: ret_def revert_def SafeMath_mul_checked
        dest: getAttestations_Inl getStableToken_Inl staticcall_Inl split: if_splits)

lemma metaApproveCUSD_Inl:
  "metaApproveCUSD reenter env wallet fee v r s c w t = Inl (e, t') \<Longrightarrow> e = DownstreamReverted"
  unfolding metaApproveCUSD_def Let_def bnd_Inl
  by (auto simp: ret_def dest: getAttestations_Inl getStableToken_Inl extcall_Inl)

lemma metaRequestAttestations_Inl:
  "metaRequestAttestations reenter env wallet identifier n v r s c w t = Inl (e, t') \<Longrightarrow>
     e = DownstreamReverted"
  unfolding metaRequestAttestations_def Let_def bnd_Inl
  by (auto simp: ret_def dest: getAttestations_Inl getStableToken_Inl extcall_Inl)

lemma internal_Inl:
  "requestAttestationsWithSubsidy_internal reenter env wallet identifier n v r s c w t
     = Inl (e, t') \<Longrightarrow>
     e = DownstreamReverted \<or> e = FeeOverflow \<or> e = IndexOutOfBounds"
  unfolding requestAttestationsWithSubsidy_internal_def bnd_Inl
  by (auto simp: ret_def dest: calculateTotalFee_Inl metaApproveCUSD_Inl
        metaRequestAttestations_Inl getStableToken_Inl extcall_Inl index_Inl)

lemma body_malformed:
  "\<not> (length v = 2 \<and> length r = 2 \<and> length s = 2) \<Longrightarrow>
     requestAttestationsWithSubsidy_body reenter env wallet identifier n v r s c w t
       = Inl (MalformedRequest, t)"
  by (auto simp: requestAttestationsWithSubsidy_body_def bnd_def require_def ret_def revert_def)

lemma body_limit:
  "length v = 2 \<Longrightarrow> length r = 2 \<Longrightarrow> length s = 2 \<Longrightarrow> \<not> n < maxSubsidisedAttestations c \<Longrightarrow>
     requestAttestationsWithSubsidy_body reenter env wallet identifier n v r s c w t
       = Inl (LimitExceeded, t)"
  by (simp add: requestAttestationsWithSubsidy_body_def bnd_def require_def ret_def revert_def
        sload_def)

lemma body_run:
  "length v = 2 \<Longrightarrow> length r = 2 \<Longrightarrow> length s = 2 \<Longrightarrow> n < maxSubsidisedAttestations c \<Longrightarrow>
     requestAttestationsWithSubsidy_body reenter env wallet identifier n v r s c w t =
       bnd (getAttestationRequests env identifier wallet) (\<lambda>requestsBefore.
       bnd (requestAttestationsWithSubsidy_internal reenter env wallet identifier n v r s)
         (\<lambda>totalFee.
       bnd (getAttestationRequests env identifier wallet) (\<lambda>requestsAfter.
       bnd (require (requestsBefore + n = requestsAfter) InvariantViolation) (\<lambda>u5.
       ret [AttestationSubsidised wallet totalFee])))) c w t"
  by (simp add: requestAttestationsWithSubsidy_body_def bnd_def require_def ret_def sload_def)

lemma body_shape:
  assumes "requestAttestationsWithSubsidy_body reenter env wallet identifier n v r s c w t
             = Inr x"
  shows "length v = 2 \<and> length r = 2 \<and> length s = 2 \<and> n < maxSubsidisedAttestations c"
proof -
  have shape: "length v = 2 \<and> length r = 2 \<and> length s = 2"
  proof (rule ccontr)
    assume "\<not> (length v = 2 \<and> length r = 2 \<and> length s = 2)"
    then have "requestAttestationsWithSubsidy_body reenter env wallet identifier n v r s c w t
                 = Inl (MalformedRequest, t)"
      by (rule body_malformed)
    with assms show False by simp
  qed
  have "n < maxSubsidisedAttestations c"
  proof (rule ccontr)
    assume "\<not> n < maxSubsidisedAttestations c"
    with shape have "requestAttestationsWithSubsidy_body reenter env wallet identifier n v r s c
                 w t = Inl (LimitExceeded, t)"
      by (simp add: body_limit)
    with assms show False by simp
  qed
  with shape show ?thesis by simp
qed

lemma body_Inr:
  assumes "requestAttestationsWithSubsidy_body reenter env wallet identifier n v r s c w t
             = Inr (evs, c', w', t')"
  shows "\<exists>before fee t1 t2 after.
            getAttestationRequests env identifier wallet c w t = Inr (before, c, w, t1) \<and>
            requestAttestationsWithSubsidy_internal reenter env wallet identifier n v r s c w t1
              = Inr (fee, c', w', t2) \<and>
            getAttestationRequests env identifier wallet c' w' t2 = Inr (after, c', w', t') \<and>
            before + n = after \<and> evs = [AttestationSubsidised wallet fee]"
proof -
  note sh = body_shape [OF assms]
  from assms sh obtain before c1 w1 t1 fee c2 w2 t2 after c3 w3 t3 where
    a: "getAttestationRequests env identifier wallet c w t = Inr (before, c1, w1, t1)" and
    b: "requestAttestationsWithSubsidy_internal reenter env wallet identifier n v r s c1 w1 t1
          = Inr (fee, c2, w2, t2)" and
    d: "getAttestationRequests env identifier wallet c2 w2 t2 = Inr (after, c3, w3, t3)" and
    e: "bnd (require (before + n = after) InvariantViolation)
          (\<lambda>u5. ret [AttestationSubsidised wallet fee]) c3 w3 t3 = Inr (evs, c', w', t')"
    by (auto simp: body_run bnd_Inr)
  from a have w1: "c1 = c \<and> w1 = w" by (auto dest: getAttestationRequests_Inr)
  from d have w3: "c3 = c2 \<and> w3 = w2" by (auto dest: getAttestationRequests_Inr)
  from e have f: "before + n = after \<and> evs = [AttestationSubsidised wallet fee] \<and>
                  c' = c3 \<and> w' = w3 \<and> t' = t3"
    by (auto simp: bnd_def require_def ret_def revert_def split: if_splits)
  show ?thesis using a b d f w1 w3 by auto
qed

lemma body_Inl:
  assumes "requestAttestationsWithSubsidy_body reenter env wallet identifier n v r s c w t
             = Inl (e, t')"
  shows "e = MalformedRequest \<or> e = LimitExceeded \<or> e = DownstreamReverted \<or>
         e = FeeOverflow \<or> e = IndexOutOfBounds \<or> e = InvariantViolation"
proof (cases "length v = 2 \<and> length r = 2 \<and> length s = 2")
  case False
  then have "requestAttestationsWithSubsidy_body reenter env wallet identifier n v r s c w t
               = Inl (MalformedRequest, t)"
    by (rule body_malformed)
  with assms show ?thesis by simp
next
  case shape: True
  show ?thesis
  proof (cases "n < maxSubsidisedAttestations c")
    case False
    with shape have "requestAttestationsWithSubsidy_body reenter env wallet identifier n v r s c
                 w t = Inl (LimitExceeded, t)"
      by (simp add: body_limit)
    with assms show ?thesis by simp
  next
    case True
    with assms shape show ?thesis
      by (auto simp: body_run bnd_Inl require_def ret_def revert_def
            dest: getAttestationRequests_Inl internal_Inl split: if_splits)
  qed
qed

lemma body_Inl_limit:
  assumes "requestAttestationsWithSubsidy_body reenter env wallet identifier n v r s c w t
             = Inl (LimitExceeded, t')"
  shows "length v = 2 \<and> length r = 2 \<and> length s = 2 \<and> \<not> n < maxSubsidisedAttestations c"
proof -
  have shape: "length v = 2 \<and> length r = 2 \<and> length s = 2"
  proof (rule ccontr)
    assume "\<not> (length v = 2 \<and> length r = 2 \<and> length s = 2)"
    then have "requestAttestationsWithSubsidy_body reenter env wallet identifier n v r s c w t
                 = Inl (MalformedRequest, t)"
      by (rule body_malformed)
    with assms show False by simp
  qed
  have "\<not> n < maxSubsidisedAttestations c"
  proof
    assume lt: "n < maxSubsidisedAttestations c"
    from assms shape lt show False
      by (auto simp: body_run bnd_Inl require_def ret_def revert_def
            dest: getAttestationRequests_Inl internal_Inl split: if_splits)
  qed
  then show ?thesis using shape by simp
qed

lemma request_unauthorized:
  "sender \<noteq> owner c \<Longrightarrow>
     requestAttestationsWithSubsidy reenter env sender wallet identifier n v r s c w
       = Inl (Unauthorized, [])"
  by (simp add: requestAttestationsWithSubsidy_def onlyOwner_def)

lemma request_owner:
  "sender = owner c \<Longrightarrow>
     requestAttestationsWithSubsidy reenter env sender wallet identifier n v r s c w =
       (case requestAttestationsWithSubsidy_body reenter env wallet identifier n v r s
               (c\<lparr>guardCounter := guardCounter c + 1\<rparr>) w [] of
          Inl failure \<Rightarrow> Inl failure
        | Inr (evs, c', w', t) \<Rightarrow>
            if guardCounter c + 1 = guardCounter c' then Inr (c', w', evs, t)
            else Inl (ReentrantCall, t))"
  by (auto simp: requestAttestationsWithSubsidy_def onlyOwner_def nonReentrant_def Let_def
        split: sum.splits)

subsection \<open>What every step maintains\<close>

lemma preserves_ret: "preserves P (ret x)"
  by (simp add: preserves_def ret_def)

lemma preserves_revert: "preserves P (revert e)"
  by (simp add: preserves_def revert_def)

lemma preserves_require: "preserves P (require b e)"
  by (simp add: preserves_def require_def ret_def revert_def)

lemma preserves_sload: "preserves P sload"
  by (simp add: preserves_def sload_def)

lemma preserves_index: "preserves P (index xs i)"
  by (simp add: preserves_def index_def ret_def revert_def)

lemma preserves_bnd:
  assumes "preserves P m" and "\<And>a. preserves P (f a)"
  shows "preserves P (bnd m f)"
  unfolding preserves_def bnd_Inr
proof (intro allI impI)
  fix c w t a c' w' t'
  assume p: "P c t"
    and "\<exists>b c1 w1 t1. m c w t = Inr (b, c1, w1, t1) \<and> f b c1 w1 t1 = Inr (a, c', w', t')"
  then obtain b c1 w1 t1 where m: "m c w t = Inr (b, c1, w1, t1)"
    and f: "f b c1 w1 t1 = Inr (a, c', w', t')"
    by blast
  from assms(1) p m have "P c1 t1" unfolding preserves_def by blast
  with assms(2) [of b] f show "P c' t'" unfolding preserves_def by blast
qed

lemma preserves_staticcall:
  assumes "\<And>c t. P c t \<Longrightarrow> P c (t @ [lbl])"
  shows "preserves P (staticcall lbl f)"
  using assms by (auto simp: preserves_def staticcall_def split: option.splits)

lemma run_callee_preserves:
  assumes re: "\<And>re c w res c' w' t. reenter re c w = (res, c', w') \<Longrightarrow> P c t
                 \<Longrightarrow> P c' (t @ [Reentered re res])"
  shows "run_callee reenter callee c t = Some (a, c', w', t') \<Longrightarrow> P c t \<Longrightarrow> P c' t'"
proof (induction callee arbitrary: c t)
  case (Returns x w)
  then show ?case by simp
next
  case Reverts
  then show ?case by simp
next
  case (Reenters w r k)
  obtain res c1 w1 where step: "reenter r c w = (res, c1, w1)"
    by (cases "reenter r c w") auto
  with Reenters.prems(1) have
    run: "run_callee reenter (k res w1) c1 (t @ [Reentered r res]) = Some (a, c', w', t')"
    by simp
  from re [OF step Reenters.prems(2)] have "P c1 (t @ [Reentered r res])" .
  with Reenters.IH run show ?case by blast
qed

lemma preserves_extcall:
  assumes lbl: "\<And>c t. P c t \<Longrightarrow> P c (t @ [lbl])"
    and re: "\<And>re c w res c' w' t. reenter re c w = (res, c', w') \<Longrightarrow> P c t
                 \<Longrightarrow> P c' (t @ [Reentered re res])"
  shows "preserves P (extcall reenter lbl f)"
  unfolding preserves_def extcall_def
proof (intro allI impI)
  fix c w t a c' w' t'
  assume p: "P c t"
    and run: "(case run_callee reenter (f w) c (t @ [lbl]) of
                None \<Rightarrow> Inl (DownstreamReverted, t @ [lbl])
              | Some (a, c', w', t') \<Rightarrow> Inr (a, c', w', t')) = Inr (a, c', w', t')"
  then have "run_callee reenter (f w) c (t @ [lbl]) = Some (a, c', w', t')"
    by (auto split: option.splits)
  then show "P c' t'"
  proof (rule run_callee_preserves [rotated])
    show "P c (t @ [lbl])" using p by (rule lbl)
  next
    fix re c w res c' w' t
    assume "reenter re c w = (res, c', w')" and "P c t"
    then show "P c' (t @ [Reentered re res])" by (rule re)
  qed
qed

lemma preserves_body:
  assumes plain: "\<And>c t lbl. \<not> nested_request lbl \<Longrightarrow> P c t \<Longrightarrow> P c (t @ [lbl])"
    and re: "\<And>re c w res c' w' t. reenter re c w = (res, c', w') \<Longrightarrow> P c t
                 \<Longrightarrow> P c' (t @ [Reentered re res])"
  shows "preserves P (requestAttestationsWithSubsidy_body reenter env wallet identifier n v r s)"
proof -
  have gs: "preserves P (getStableToken env)"
    unfolding getStableToken_def
    by (intro preserves_bnd preserves_sload preserves_staticcall plain) simp
  have ga: "preserves P (getAttestations env)"
    unfolding getAttestations_def
    by (intro preserves_bnd preserves_sload preserves_staticcall plain) simp
  have gr: "preserves P (getAttestationRequests env identifier wallet)"
    unfolding getAttestationRequests_def
    by (intro preserves_bnd ga preserves_staticcall preserves_ret plain) simp
  have fee: "preserves P (calculateTotalFee env n)"
    unfolding calculateTotalFee_def
    by (intro preserves_bnd ga gs preserves_staticcall plain)
      (auto intro: preserves_ret preserves_revert split: sum.splits)
  have approve: "\<And>fee v0 r0 s0. preserves P (metaApproveCUSD reenter env wallet fee v0 r0 s0)"
    unfolding metaApproveCUSD_def Let_def
    by (intro preserves_bnd ga gs preserves_extcall preserves_ret plain re) simp_all
  have request: "\<And>v1 r1 s1.
      preserves P (metaRequestAttestations reenter env wallet identifier n v1 r1 s1)"
    unfolding metaRequestAttestations_def Let_def
    by (intro preserves_bnd ga gs preserves_extcall preserves_ret plain re) simp_all
  have internal:
    "preserves P (requestAttestationsWithSubsidy_internal reenter env wallet identifier n v r s)"
    unfolding requestAttestationsWithSubsidy_internal_def
    by (intro preserves_bnd fee gs preserves_index approve request preserves_extcall
          preserves_ret plain re) simp_all
  show ?thesis
    unfolding requestAttestationsWithSubsidy_body_def
    by (intro preserves_bnd preserves_require preserves_sload gr internal preserves_ret)
qed

subsection \<open>The counter of the guard and the limit across calls back\<close>












lemma setMax_commit_positive:
  "0 < maxSubsidisedAttestations c \<Longrightarrow>
     0 < maxSubsidisedAttestations (commit c (setMaxSubsidisedAttestations sender newMax c))"
  by (auto simp: setMaxSubsidisedAttestations_def onlyOwner_def)

lemma setRegistry_commit_max:
  "maxSubsidisedAttestations (commit c (setRegistry sender registryAddress c))
     = maxSubsidisedAttestations c"
  by (auto simp: setRegistry_def onlyOwner_def)

lemma initialize_Inr:
  "initialize sender registryAddress newMax c0 = Inr (c, evs) \<Longrightarrow>
     maxSubsidisedAttestations c = newMax \<and> 0 < newMax"
  by (auto simp: initialize_def initializer_def andThen_def transferOwnership_internal_def
        setRegistry_def setMaxSubsidisedAttestations_def onlyOwner_def
        split: if_splits sum.splits prod.splits)

lemma initialize_commit_positive:
  "0 < maxSubsidisedAttestations c \<Longrightarrow>
     0 < maxSubsidisedAttestations (commit c (initialize sender registryAddress newMax c))"
proof (cases "initialize sender registryAddress newMax c")
  case (Inl e)
  then show "0 < maxSubsidisedAttestations c \<Longrightarrow> ?thesis" by simp
next
  case (Inr p)
  then obtain c' evs where "initialize sender registryAddress newMax c = Inr (c', evs)"
    by (cases p) simp
  then show "0 < maxSubsidisedAttestations c \<Longrightarrow> ?thesis"
    using initialize_Inr by fastforce
qed

lemma request_positive_step:
  assumes re: "\<And>re c w res c' w'. reenter re c w = (res, c', w') \<Longrightarrow>
                 0 < maxSubsidisedAttestations c \<Longrightarrow> 0 < maxSubsidisedAttestations c'"
    and pos: "0 < maxSubsidisedAttestations c"
  shows "0 < maxSubsidisedAttestations (fst (settle (c, w)
           (requestAttestationsWithSubsidy reenter env sender wallet identifier n v r s c w)))"
proof (cases "requestAttestationsWithSubsidy reenter env sender wallet identifier n v r s c w")
  case (Inl failure)
  with pos show ?thesis by simp
next
  case (Inr success)
  then obtain c' w' evs t where
    run: "requestAttestationsWithSubsidy reenter env sender wallet identifier n v r s c w
            = Inr (c', w', evs, t)"
    by (cases success) auto
  have own: "sender = owner c"
  proof (rule ccontr)
    assume "sender \<noteq> owner c"
    then have "requestAttestationsWithSubsidy reenter env sender wallet identifier n v r s c w
                 = Inl (Unauthorized, [])"
      by (rule request_unauthorized)
    with run show False by simp
  qed
  with run have
    body: "requestAttestationsWithSubsidy_body reenter env wallet identifier
             n v r s (c\<lparr>guardCounter := guardCounter c + 1\<rparr>) w [] = Inr (evs, c', w', t)"
    by (auto simp: request_owner split: sum.splits if_splits)
  let ?P = "\<lambda>c (t :: ext_call list). 0 < maxSubsidisedAttestations c"
  have "preserves ?P (requestAttestationsWithSubsidy_body reenter env wallet identifier
          n v r s)"
    by (rule preserves_body) (auto intro: re)
  moreover from pos have "0 < maxSubsidisedAttestations (c\<lparr>guardCounter := guardCounter c + 1\<rparr>)"
    by simp
  ultimately have "0 < maxSubsidisedAttestations c'"
    using body unfolding preserves_def by blast
  with run show ?thesis by simp
qed

lemma perform_positive:
  assumes re: "\<And>re c w res c' w'. reenter re c w = (res, c', w') \<Longrightarrow>
                 0 < maxSubsidisedAttestations c \<Longrightarrow> 0 < maxSubsidisedAttestations c'"
    and step: "perform reenter env re c w = (res, c', w')"
    and pos: "0 < maxSubsidisedAttestations c"
  shows "0 < maxSubsidisedAttestations c'"
proof (cases re)
  case (ReRequest sender wallet ident n v r s)
  with step have "c' = fst (settle (c, w)
      (requestAttestationsWithSubsidy reenter env sender wallet ident n v r s c w))"
    by (auto simp: Let_def)
  then show ?thesis using request_positive_step [of reenter c w env sender wallet ident n v r s] re pos
    by blast
next
  case (ReSetMax sender newMax)
  with step pos show ?thesis
    using setMax_commit_positive [of c sender newMax] by (auto simp: Let_def)
next
  case (ReInitialize sender registryAddress newMax)
  with step pos show ?thesis
    using initialize_commit_positive [of c sender registryAddress newMax] by (auto simp: Let_def)
next
  case (ReSetRegistry sender registryAddress)
  with step pos show ?thesis
    using setRegistry_commit_max [of c sender registryAddress] by (auto simp: Let_def)
qed

lemma reenter_at_positive:
  "reenter_at depth env re c w = (res, c', w') \<Longrightarrow> 0 < maxSubsidisedAttestations c \<Longrightarrow>
     0 < maxSubsidisedAttestations c'"
proof (induction depth arbitrary: re c w res c' w')
  case 0
  then show ?case by auto
next
  case (Suc depth)
  from Suc.prems(1) have step: "perform (reenter_at depth env) env re c w = (res, c', w')"
    by simp
  show ?case
  proof (rule perform_positive [OF _ step Suc.prems(2)])
    fix re c w res c' w'
    assume "reenter_at depth env re c w = (res, c', w')"
      and "0 < maxSubsidisedAttestations c"
    then show "0 < maxSubsidisedAttestations c'" by (rule Suc.IH)
  qed
qed

lemma request_positive:
  "0 < maxSubsidisedAttestations c \<Longrightarrow>
     0 < maxSubsidisedAttestations (fst (settle (c, w)
           (requestAttestationsWithSubsidy (reenter_at depth env) env sender wallet identifier
              n v r s c w)))"
  by (rule request_positive_step) (auto intro: reenter_at_positive)

subsection \<open>Concrete runs\<close>

text \<open>
  Runs on the concrete ledgers, from the storage \<open>deployed\<close> and the ledger state 100: a
  request for 5 attestations at the unit price 2; a request whose sum on line 104 wraps
  around; and three requests during which the wallet calls back, as the owner, as itself and
  as the owner with one signature.
\<close>

lemmas chain_defs = requestAttestationsWithSubsidy_def onlyOwner_def nonReentrant_def
  requestAttestationsWithSubsidy_body_def requestAttestationsWithSubsidy_internal_def
  getAttestationRequests_def getAttestations_def getStableToken_def calculateTotalFee_def
  metaApproveCUSD_def metaRequestAttestations_def SafeMath_mul_checked step_defs extcall_def
  Let_def

lemma metering_run:
  "requestAttestationsWithSubsidy (reenter_at 0 meteringLedger) meteringLedger 7 42 99 5
     [27, 28] [1, 2] [3, 4] deployed 100 =
     Inr (deployed\<lparr>guardCounter := 1\<rparr>, 105, [AttestationSubsidised 42 10],
       [GetAttestations 9, GetAttestationStats 2 99 42, GetAttestations 9,
        GetStableToken 9, GetAttestationRequestFee 2 1, GetStableToken 9,
        GetAttestations 9, GetStableToken 9,
        ExecuteMetaTransaction 42 1 0
          (EncodeWithSignature ''approve(address,value)'' [AbiAddress 2, AbiUint256 10]) 27 1 3,
        Transfer 1 42 10, GetStableToken 9, GetAttestations 9,
        ExecuteMetaTransaction 42 2 0
          (EncodeWithSignature ''request(bytes32,uint256,address)''
             [AbiBytes32 99, AbiUint256 5, AbiAddress 1]) 28 2 4,
        GetAttestations 9, GetAttestationStats 2 99 42])"
  by (simp add: chain_defs meteringLedger_def deployed_def)

lemma wrapping_run:
  "requestAttestationsWithSubsidy (reenter_at 0 unitLedger) unitLedger 7 42 99 (- 50)
     [27, 28] [1, 2] [3, 4] (deployed\<lparr>maxSubsidisedAttestations := - 1\<rparr>) 100 =
     Inr (deployed\<lparr>maxSubsidisedAttestations := - 1, guardCounter := 1\<rparr>, 50,
       [AttestationSubsidised 42 (- 50)],
       [GetAttestations 9, GetAttestationStats 2 99 42, GetAttestations 9,
        GetStableToken 9, GetAttestationRequestFee 2 1, GetStableToken 9,
        GetAttestations 9, GetStableToken 9,
        ExecuteMetaTransaction 42 1 0
          (EncodeWithSignature ''approve(address,value)'' [AbiAddress 2, AbiUint256 (- 50)])
          27 1 3,
        Transfer 1 42 (- 50), GetStableToken 9, GetAttestations 9,
        ExecuteMetaTransaction 42 2 0
          (EncodeWithSignature ''request(bytes32,uint256,address)''
             [AbiBytes32 99, AbiUint256 (- 50), AbiAddress 1]) 28 2 4,
        GetAttestations 9, GetAttestationStats 2 99 42])"
  by (simp add: chain_defs meteringLedger_def unitLedger_def deployed_def)

lemma reentrant_owner_run:
  "requestAttestationsWithSubsidy
     (reenter_at (Suc 0) (reenteringLedger (ReRequest 7 42 99 0 [27, 28] [1, 2] [3, 4])))
     (reenteringLedger (ReRequest 7 42 99 0 [27, 28] [1, 2] [3, 4]))
     7 42 99 5 [27, 28] [1, 2] [3, 4] deployed 100 =
     Inl (ReentrantCall,
       [GetAttestations 9, GetAttestationStats 2 99 42, GetAttestations 9,
        GetStableToken 9, GetAttestationRequestFee 2 1, GetStableToken 9,
        GetAttestations 9, GetStableToken 9,
        ExecuteMetaTransaction 42 1 0
          (EncodeWithSignature ''approve(address,value)'' [AbiAddress 2, AbiUint256 10]) 27 1 3,
        Reentered (ReRequest 7 42 99 0 [27, 28] [1, 2] [3, 4]) None,
        Transfer 1 42 10, GetStableToken 9, GetAttestations 9,
        ExecuteMetaTransaction 42 2 0
          (EncodeWithSignature ''request(bytes32,uint256,address)''
             [AbiBytes32 99, AbiUint256 5, AbiAddress 1]) 28 2 4,
        GetAttestations 9, GetAttestationStats 2 99 42])"
  by (simp add: chain_defs reenteringLedger_def meteringLedger_def deployed_def)


lemma reentrant_malformed_run:
  "requestAttestationsWithSubsidy
     (reenter_at (Suc 0) (reenteringLedger (ReRequest 7 42 99 0 [27] [1, 2] [3, 4])))
     (reenteringLedger (ReRequest 7 42 99 0 [27] [1, 2] [3, 4]))
     7 42 99 5 [27, 28] [1, 2] [3, 4] deployed 100 =
     Inr (deployed\<lparr>guardCounter := 1\<rparr>, 105, [AttestationSubsidised 42 10],
       [GetAttestations 9, GetAttestationStats 2 99 42, GetAttestations 9,
        GetStableToken 9, GetAttestationRequestFee 2 1, GetStableToken 9,
        GetAttestations 9, GetStableToken 9,
        ExecuteMetaTransaction 42 1 0
          (EncodeWithSignature ''approve(address,value)'' [AbiAddress 2, AbiUint256 10]) 27 1 3,
        Reentered (ReRequest 7 42 99 0 [27] [1, 2] [3, 4]) (Some MalformedRequest),
        Transfer 1 42 10, GetStableToken 9, GetAttestations 9,
        ExecuteMetaTransaction 42 2 0
          (EncodeWithSignature ''request(bytes32,uint256,address)''
             [AbiBytes32 99, AbiUint256 5, AbiAddress 1]) 28 2 4,
        GetAttestations 9, GetAttestationStats 2 99 42])"
  by (simp add: chain_defs reenteringLedger_def meteringLedger_def deployed_def)

lemma reachable_deployed: "reachable deployed"
proof -
  have "initialize 7 9 10 fresh = Inr (deployed,
          [OwnershipTransferred 0 7, RegistrySet 9, MaxSubsidisedAttestationsSet 10])"
    by (simp add: initialize_def initializer_def andThen_def transferOwnership_internal_def
          setRegistry_def setMaxSubsidisedAttestations_def onlyOwner_def fresh_def deployed_def)
  moreover have "\<not> initialized fresh" by (simp add: fresh_def)
  ultimately show ?thesis by (rule reach_initialize [rotated])
qed

lemma reachable_unlimited: "reachable (deployed\<lparr>maxSubsidisedAttestations := - 1\<rparr>)"
proof -
  have "commit deployed (setMaxSubsidisedAttestations 7 (- 1) deployed)
          = deployed\<lparr>maxSubsidisedAttestations := - 1\<rparr>"
    by (simp add: setMaxSubsidisedAttestations_def onlyOwner_def deployed_def word_gt_0)
  with reach_setMax [OF reachable_deployed, of 7 "- 1"] show ?thesis by simp
qed

lemma counter_delta_exact:
  fixes requestsBefore requestsAfter n :: uint256
  assumes "requestsBefore + n = requestsAfter"
    and "unat requestsBefore + unat n < 2 ^ 256"
  shows "unat requestsAfter = unat requestsBefore + unat n"
  using assms by (auto simp: unat_add_lem [THEN iffD1])

subsection \<open>The counter check\<close>

text \<open>
  The limit is \<open>2^256 - 1\<close>, which the owner can set, the request counter of the pair
  stands at 100, and \<open>2^256 - 50\<close> attestations are requested: the sum of line 104 wraps
  around to 50, which is what the counter reads afterwards, so the request succeeds with its
  event although the counter went down by 50.
\<close>

theorem counter_delta_counterexample:
  "reachable (deployed\<lparr>maxSubsidisedAttestations := - 1\<rparr>) \<and>
   failure_of (requestAttestationsWithSubsidy (reenter_at 0 unitLedger) unitLedger 7 42 99 (- 50)
     [27, 28] [1, 2] [3, 4] (deployed\<lparr>maxSubsidisedAttestations := - 1\<rparr>) 100) = None \<and>
   emitted (requestAttestationsWithSubsidy (reenter_at 0 unitLedger) unitLedger 7 42 99 (- 50)
     [27, 28] [1, 2] [3, 4] (deployed\<lparr>maxSubsidisedAttestations := - 1\<rparr>) 100)
     = [AttestationSubsidised 42 (- 50)] \<and>
   snd (settle (deployed\<lparr>maxSubsidisedAttestations := - 1\<rparr>, 100)
     (requestAttestationsWithSubsidy (reenter_at 0 unitLedger) unitLedger 7 42 99 (- 50)
        [27, 28] [1, 2] [3, 4] (deployed\<lparr>maxSubsidisedAttestations := - 1\<rparr>) 100)) = 50 \<and>
   readRequests unitLedger (deployed\<lparr>maxSubsidisedAttestations := - 1\<rparr>) 99 42 100 = Some 100 \<and>
   readRequests unitLedger (deployed\<lparr>maxSubsidisedAttestations := - 1\<rparr>) 99 42 50 = Some 50 \<and>
   int (unat (50 :: uint256)) - int (unat (100 :: uint256)) \<noteq> int (unat (- 50 :: uint256))"
proof -
  have reads: "readRequests unitLedger (deployed\<lparr>maxSubsidisedAttestations := - 1\<rparr>) 99 42 100
                 = Some 100"
    "readRequests unitLedger (deployed\<lparr>maxSubsidisedAttestations := - 1\<rparr>) 99 42 50 = Some 50"
    by (simp_all add: readRequests_def getAttestationRequests_unfold unitLedger_def
          meteringLedger_def)
  have "int (unat (50 :: uint256)) - int (unat (100 :: uint256)) < 0" by simp
  then have neq: "int (unat (50 :: uint256)) - int (unat (100 :: uint256))
                    \<noteq> int (unat (- 50 :: uint256))"
    by (metis not_less of_nat_0_le_iff)
  have run: "failure_of (requestAttestationsWithSubsidy (reenter_at 0 unitLedger) unitLedger 7
        42 99 (- 50) [27, 28] [1, 2] [3, 4] (deployed\<lparr>maxSubsidisedAttestations := - 1\<rparr>) 100)
      = None"
    "emitted (requestAttestationsWithSubsidy (reenter_at 0 unitLedger) unitLedger 7 42 99 (- 50)
       [27, 28] [1, 2] [3, 4] (deployed\<lparr>maxSubsidisedAttestations := - 1\<rparr>) 100)
       = [AttestationSubsidised 42 (- 50)]"
    "snd (settle (deployed\<lparr>maxSubsidisedAttestations := - 1\<rparr>, 100)
       (requestAttestationsWithSubsidy (reenter_at 0 unitLedger) unitLedger 7 42 99 (- 50)
          [27, 28] [1, 2] [3, 4] (deployed\<lparr>maxSubsidisedAttestations := - 1\<rparr>) 100)) = 50"
    unfolding wrapping_run by simp_all
  from reachable_unlimited run reads neq show ?thesis by blast
qed

text \<open>
  Claim C1, as the code has it. A request that returns success has moved the request
  counter of the pair by the number requested modulo \<open>2^256\<close>: the counter read in the
  ledger after the call, minus the counter read in the ledger before it, is
  \<open>attestationsRequested\<close> in \<open>uint256\<close>, and it is so exactly whenever the sum of line
  104 does not wrap around; the one event the call emits is \<open>AttestationSubsidised\<close>. When
  the checks pass and the two reads and the three chained calls all return, the request
  reverts with \<open>InvariantViolation\<close> if the check of line 104 fails, so the event is
  emitted only when that check passes; it then succeeds unless the guard reverts it.
\<close>

theorem requestAttestationsWithSubsidy_counter_delta:
  "(\<forall>c' w' evs t.
      requestAttestationsWithSubsidy reenter env sender wallet identifier n v r s c w
        = Inr (c', w', evs, t) \<longrightarrow>
      (\<exists>requestsBefore requestsAfter totalFee.
         readRequests env c identifier wallet w = Some requestsBefore \<and>
         readRequests env c' identifier wallet w' = Some requestsAfter \<and>
         requestsAfter - requestsBefore = n \<and>
         (unat requestsBefore + unat n < 2 ^ 256 \<longrightarrow>
            unat requestsAfter = unat requestsBefore + unat n) \<and>
         evs = [AttestationSubsidised wallet totalFee]))
   \<and>
   (\<forall>requestsBefore t1 totalFee c' w' t2 requestsAfter t3.
      sender = owner c \<and>
      length v = 2 \<and> length r = 2 \<and> length s = 2 \<and> n < maxSubsidisedAttestations c \<and>
      getAttestationRequests env identifier wallet (c\<lparr>guardCounter := guardCounter c + 1\<rparr>) w []
        = Inr (requestsBefore, c\<lparr>guardCounter := guardCounter c + 1\<rparr>, w, t1) \<and>
      requestAttestationsWithSubsidy_internal reenter env wallet identifier n v r s
          (c\<lparr>guardCounter := guardCounter c + 1\<rparr>) w t1
        = Inr (totalFee, c', w', t2) \<and>
      getAttestationRequests env identifier wallet c' w' t2 = Inr (requestsAfter, c', w', t3) \<longrightarrow>
      requestAttestationsWithSubsidy reenter env sender wallet identifier n v r s c w =
        (if requestsAfter - requestsBefore \<noteq> n then Inl (InvariantViolation, t3)
         else if guardCounter c + 1 = guardCounter c'
         then Inr (c', w', [AttestationSubsidised wallet totalFee], t3)
         else Inl (ReentrantCall, t3)))"
proof (intro conjI allI impI)
  fix c' w' evs t
  assume ok: "requestAttestationsWithSubsidy reenter env sender wallet identifier n v r s c w
                = Inr (c', w', evs, t)"
  have own: "sender = owner c"
  proof (rule ccontr)
    assume "sender \<noteq> owner c"
    then have "requestAttestationsWithSubsidy reenter env sender wallet identifier n v r s c w
                 = Inl (Unauthorized, [])"
      by (rule request_unauthorized)
    with ok show False by simp
  qed
  with ok have
    "requestAttestationsWithSubsidy_body reenter env wallet identifier
       n v r s (c\<lparr>guardCounter := guardCounter c + 1\<rparr>) w [] = Inr (evs, c', w', t)"
    by (auto simp: request_owner split: sum.splits if_splits)
  from body_Inr [OF this] obtain before fee t1 t2 after where
    a: "getAttestationRequests env identifier wallet (c\<lparr>guardCounter := guardCounter c + 1\<rparr>)
          w [] = Inr (before, c\<lparr>guardCounter := guardCounter c + 1\<rparr>, w, t1)" and
    d: "getAttestationRequests env identifier wallet c' w' t2 = Inr (after, c', w', t)" and
    e: "before + n = after" and f: "evs = [AttestationSubsidised wallet fee]"
    by blast
  from a have "readRequests env c identifier wallet w = Some before"
    by (auto dest: getAttestationRequests_Inr simp: readRequests_guard)
  moreover from d have "readRequests env c' identifier wallet w' = Some after"
    by (auto dest: getAttestationRequests_Inr)
  moreover from e have "after - before = n" by auto
  moreover have "unat before + unat n < 2 ^ 256 \<longrightarrow> unat after = unat before + unat n"
  proof
    assume "unat before + unat n < 2 ^ 256"
    with e show "unat after = unat before + unat n" by (rule counter_delta_exact)
  qed
  ultimately show "\<exists>requestsBefore requestsAfter totalFee.
         readRequests env c identifier wallet w = Some requestsBefore \<and>
         readRequests env c' identifier wallet w' = Some requestsAfter \<and>
         requestsAfter - requestsBefore = n \<and>
         (unat requestsBefore + unat n < 2 ^ 256 \<longrightarrow>
            unat requestsAfter = unat requestsBefore + unat n) \<and>
         evs = [AttestationSubsidised wallet totalFee]"
    using f by blast
next
  fix requestsBefore t1 totalFee c' w' t2 requestsAfter t3
  assume h: "sender = owner c \<and>
      length v = 2 \<and> length r = 2 \<and> length s = 2 \<and> n < maxSubsidisedAttestations c \<and>
      getAttestationRequests env identifier wallet (c\<lparr>guardCounter := guardCounter c + 1\<rparr>) w []
        = Inr (requestsBefore, c\<lparr>guardCounter := guardCounter c + 1\<rparr>, w, t1) \<and>
      requestAttestationsWithSubsidy_internal reenter env wallet identifier n v r s
          (c\<lparr>guardCounter := guardCounter c + 1\<rparr>) w t1
        = Inr (totalFee, c', w', t2) \<and>
      getAttestationRequests env identifier wallet c' w' t2 = Inr (requestsAfter, c', w', t3)"
  have eq: "(requestsAfter - requestsBefore = n) = (requestsBefore + n = requestsAfter)"
    by auto
  from h show "requestAttestationsWithSubsidy reenter env sender wallet identifier n v r s c w =
        (if requestsAfter - requestsBefore \<noteq> n then Inl (InvariantViolation, t3)
         else if guardCounter c + 1 = guardCounter c'
         then Inr (c', w', [AttestationSubsidised wallet totalFee], t3)
         else Inl (ReentrantCall, t3))"
    by (simp add: request_owner body_run eq bnd_def require_def ret_def revert_def)
qed

theorem requestAttestationsWithSubsidy_counter_delta_witness:
  "(\<exists>requestsBefore requestsAfter.
      readRequests meteringLedger deployed 99 42 100 = Some requestsBefore \<and>
      readRequests meteringLedger (deployed\<lparr>guardCounter := 1\<rparr>) 99 42 105
        = Some requestsAfter \<and>
      requestsAfter - requestsBefore = 5 \<and>
      unat requestsAfter = unat requestsBefore + unat (5 :: uint256)) \<and>
   emitted (requestAttestationsWithSubsidy (reenter_at 0 meteringLedger) meteringLedger 7 42 99
              5 [27, 28] [1, 2] [3, 4] deployed 100) = [AttestationSubsidised 42 10] \<and>
   (\<exists>t. requestAttestationsWithSubsidy (reenter_at 0 silentLedger) silentLedger 7 42 99 5
          [27, 28] [1, 2] [3, 4] deployed 100 = Inl (InvariantViolation, t))"
proof -
  note delta = requestAttestationsWithSubsidy_counter_delta
  have "\<exists>requestsBefore requestsAfter totalFee.
          readRequests meteringLedger deployed 99 42 100 = Some requestsBefore \<and>
          readRequests meteringLedger (deployed\<lparr>guardCounter := 1\<rparr>) 99 42 105
            = Some requestsAfter \<and>
          requestsAfter - requestsBefore = 5 \<and>
          (unat requestsBefore + unat (5 :: uint256) < 2 ^ 256 \<longrightarrow>
             unat requestsAfter = unat requestsBefore + unat (5 :: uint256)) \<and>
          [AttestationSubsidised 42 10] = [AttestationSubsidised 42 totalFee]"
    using delta [THEN conjunct1, rule_format, OF metering_run] .
  then obtain requestsBefore requestsAfter where
    reads: "readRequests meteringLedger deployed 99 42 100 = Some requestsBefore"
      "readRequests meteringLedger (deployed\<lparr>guardCounter := 1\<rparr>) 99 42 105
         = Some requestsAfter"
      "requestsAfter - requestsBefore = 5"
    and exact: "unat requestsBefore + unat (5 :: uint256) < 2 ^ 256 \<longrightarrow>
             unat requestsAfter = unat requestsBefore + unat (5 :: uint256)"
    by blast
  from reads(1) have "requestsBefore = 100"
    by (simp add: readRequests_def getAttestationRequests_unfold meteringLedger_def)
  with exact have "unat requestsAfter = unat requestsBefore + unat (5 :: uint256)" by simp
  with reads have first: "\<exists>requestsBefore requestsAfter.
      readRequests meteringLedger deployed 99 42 100 = Some requestsBefore \<and>
      readRequests meteringLedger (deployed\<lparr>guardCounter := 1\<rparr>) 99 42 105
        = Some requestsAfter \<and>
      requestsAfter - requestsBefore = 5 \<and>
      unat requestsAfter = unat requestsBefore + unat (5 :: uint256)"
    by blast
  have evs: "emitted (requestAttestationsWithSubsidy (reenter_at 0 meteringLedger)
               meteringLedger 7 42 99 5 [27, 28] [1, 2] [3, 4] deployed 100)
               = [AttestationSubsidised 42 10]"
    unfolding metering_run by simp
  have pre: "7 = owner deployed \<and>
      length [27, 28 :: uint8] = 2 \<and> length [1, 2 :: bytes32] = 2 \<and>
      length [3, 4 :: bytes32] = 2 \<and> (5 :: uint256) < maxSubsidisedAttestations deployed \<and>
      getAttestationRequests silentLedger 99 42
          (deployed\<lparr>guardCounter := guardCounter deployed + 1\<rparr>) 100 []
        = Inr (100, deployed\<lparr>guardCounter := guardCounter deployed + 1\<rparr>, 100,
               [GetAttestations 9, GetAttestationStats 2 99 42]) \<and>
      requestAttestationsWithSubsidy_internal (reenter_at 0 silentLedger) silentLedger 42 99 5
          [27, 28] [1, 2] [3, 4] (deployed\<lparr>guardCounter := guardCounter deployed + 1\<rparr>) 100
          [GetAttestations 9, GetAttestationStats 2 99 42]
        = Inr (10, deployed\<lparr>guardCounter := 1\<rparr>, 100,
            [GetAttestations 9, GetAttestationStats 2 99 42, GetAttestations 9,
             GetStableToken 9, GetAttestationRequestFee 2 1, GetStableToken 9,
             GetAttestations 9, GetStableToken 9,
             ExecuteMetaTransaction 42 1 0
               (EncodeWithSignature ''approve(address,value)'' [AbiAddress 2, AbiUint256 10])
               27 1 3,
             Transfer 1 42 10, GetStableToken 9, GetAttestations 9,
             ExecuteMetaTransaction 42 2 0
               (EncodeWithSignature ''request(bytes32,uint256,address)''
                  [AbiBytes32 99, AbiUint256 5, AbiAddress 1]) 28 2 4]) \<and>
      getAttestationRequests silentLedger 99 42 (deployed\<lparr>guardCounter := 1\<rparr>) 100
          [GetAttestations 9, GetAttestationStats 2 99 42, GetAttestations 9,
             GetStableToken 9, GetAttestationRequestFee 2 1, GetStableToken 9,
             GetAttestations 9, GetStableToken 9,
             ExecuteMetaTransaction 42 1 0
               (EncodeWithSignature ''approve(address,value)'' [AbiAddress 2, AbiUint256 10])
               27 1 3,
             Transfer 1 42 10, GetStableToken 9, GetAttestations 9,
             ExecuteMetaTransaction 42 2 0
               (EncodeWithSignature ''request(bytes32,uint256,address)''
                  [AbiBytes32 99, AbiUint256 5, AbiAddress 1]) 28 2 4]
        = Inr (100, deployed\<lparr>guardCounter := 1\<rparr>, 100,
            [GetAttestations 9, GetAttestationStats 2 99 42, GetAttestations 9,
             GetStableToken 9, GetAttestationRequestFee 2 1, GetStableToken 9,
             GetAttestations 9, GetStableToken 9,
             ExecuteMetaTransaction 42 1 0
               (EncodeWithSignature ''approve(address,value)'' [AbiAddress 2, AbiUint256 10])
               27 1 3,
             Transfer 1 42 10, GetStableToken 9, GetAttestations 9,
             ExecuteMetaTransaction 42 2 0
               (EncodeWithSignature ''request(bytes32,uint256,address)''
                  [AbiBytes32 99, AbiUint256 5, AbiAddress 1]) 28 2 4,
             GetAttestations 9, GetAttestationStats 2 99 42])"
    by (simp add: chain_defs meteringLedger_def silentLedger_def deployed_def)
  have "\<exists>t. requestAttestationsWithSubsidy (reenter_at 0 silentLedger) silentLedger 7 42 99 5
          [27, 28] [1, 2] [3, 4] deployed 100 = Inl (InvariantViolation, t)"
    using delta [THEN conjunct2, rule_format, OF pre] by simp
  with first evs show ?thesis by blast
qed

subsection \<open>The order of the checks\<close>

text \<open>
  A sender other than the owner passes one signature instead of two: the call reverts with
  \<open>Unauthorized\<close>, not with \<open>MalformedRequest\<close>. The modifier \<open>onlyOwner\<close> of line 86
  runs before the \<open>require\<close>s of lines 87 to 90.
\<close>

theorem precondition_order_counterexample:
  "requestAttestationsWithSubsidy (reenter_at 0 meteringLedger) meteringLedger 8 42 99 5
     [27] [1, 2] [3, 4] deployed 100 = Inl (Unauthorized, []) \<and>
   requestAttestationsWithSubsidy (reenter_at 0 meteringLedger) meteringLedger 8 42 99 5
     [27] [1, 2] [3, 4] deployed 100 \<noteq> Inl (MalformedRequest, [])"
  by (simp add: requestAttestationsWithSubsidy_def onlyOwner_def deployed_def)

text \<open>
  Claim C2, as the code has it. The checks run in this order, and the first that fails
  decides the revert: the sender is the owner (\<open>Unauthorized\<close>), each of \<open>v\<close>, \<open>r\<close>
  and \<open>s\<close> has exactly two entries (\<open>MalformedRequest\<close>), and the number requested is
  below the limit (\<open>LimitExceeded\<close>), all three before any call to another contract and
  whatever the counter of the guard is; the comparison of the guard comes last, so a request
  reverts with \<open>ReentrantCall\<close> only when it passed the three checks and its body ran to
  the end. A request that the owner makes with one signature while another is in flight
  therefore reverts with \<open>MalformedRequest\<close>.
\<close>

theorem precondition_order:
  "(sender \<noteq> owner c \<longrightarrow>
      requestAttestationsWithSubsidy reenter env sender wallet identifier n v r s c w
        = Inl (Unauthorized, [])) \<and>
   (sender = owner c \<and> \<not> (length v = 2 \<and> length r = 2 \<and> length s = 2) \<longrightarrow>
      requestAttestationsWithSubsidy reenter env sender wallet identifier n v r s c w
        = Inl (MalformedRequest, [])) \<and>
   (sender = owner c \<and> length v = 2 \<and> length r = 2 \<and> length s = 2 \<and>
    \<not> n < maxSubsidisedAttestations c \<longrightarrow>
      requestAttestationsWithSubsidy reenter env sender wallet identifier n v r s c w
        = Inl (LimitExceeded, [])) \<and>
   (\<forall>t. requestAttestationsWithSubsidy reenter env sender wallet identifier n v r s c w
          = Inl (ReentrantCall, t) \<longrightarrow>
        sender = owner c \<and> length v = 2 \<and> length r = 2 \<and> length s = 2 \<and>
        n < maxSubsidisedAttestations c \<and>
        (\<exists>evs c' w'.
           requestAttestationsWithSubsidy_body reenter env wallet identifier n v r s
             (c\<lparr>guardCounter := guardCounter c + 1\<rparr>) w [] = Inr (evs, c', w', t) \<and>
           guardCounter c' \<noteq> guardCounter c + 1))"
proof -
  have unauthorized: "sender \<noteq> owner c \<longrightarrow>
      requestAttestationsWithSubsidy reenter env sender wallet identifier n v r s c w
        = Inl (Unauthorized, [])"
    by (simp add: request_unauthorized)
  have malformed: "sender = owner c \<and> \<not> (length v = 2 \<and> length r = 2 \<and> length s = 2) \<longrightarrow>
      requestAttestationsWithSubsidy reenter env sender wallet identifier n v r s c w
        = Inl (MalformedRequest, [])"
  proof
    assume h: "sender = owner c \<and> \<not> (length v = 2 \<and> length r = 2 \<and> length s = 2)"
    then have "requestAttestationsWithSubsidy_body reenter env wallet identifier n v r s
                 (c\<lparr>guardCounter := guardCounter c + 1\<rparr>) w [] = Inl (MalformedRequest, [])"
      by (intro body_malformed) simp
    with h show "requestAttestationsWithSubsidy reenter env sender wallet identifier n v r s c w
                 = Inl (MalformedRequest, [])"
      by (simp add: request_owner)
  qed
  have limit: "sender = owner c \<and> length v = 2 \<and> length r = 2 \<and> length s = 2 \<and>
      \<not> n < maxSubsidisedAttestations c \<longrightarrow>
      requestAttestationsWithSubsidy reenter env sender wallet identifier n v r s c w
        = Inl (LimitExceeded, [])"
  proof
    assume h: "sender = owner c \<and> length v = 2 \<and> length r = 2 \<and> length s = 2 \<and>
      \<not> n < maxSubsidisedAttestations c"
    then have "requestAttestationsWithSubsidy_body reenter env wallet identifier n v r s
                 (c\<lparr>guardCounter := guardCounter c + 1\<rparr>) w [] = Inl (LimitExceeded, [])"
      by (intro body_limit) simp_all
    with h show "requestAttestationsWithSubsidy reenter env sender wallet identifier n v r s c w
                 = Inl (LimitExceeded, [])"
      by (simp add: request_owner)
  qed
  have guard: "\<forall>t. requestAttestationsWithSubsidy reenter env sender wallet identifier n v r s
            c w = Inl (ReentrantCall, t) \<longrightarrow>
        sender = owner c \<and> length v = 2 \<and> length r = 2 \<and> length s = 2 \<and>
        n < maxSubsidisedAttestations c \<and>
        (\<exists>evs c' w'.
           requestAttestationsWithSubsidy_body reenter env wallet identifier n v r s
             (c\<lparr>guardCounter := guardCounter c + 1\<rparr>) w [] = Inr (evs, c', w', t) \<and>
           guardCounter c' \<noteq> guardCounter c + 1)"
  proof (intro allI impI)
    fix t
    assume re: "requestAttestationsWithSubsidy reenter env sender wallet identifier n v r s c w
                  = Inl (ReentrantCall, t)"
    have own: "sender = owner c"
    proof (rule ccontr)
      assume "sender \<noteq> owner c"
      then have "requestAttestationsWithSubsidy reenter env sender wallet identifier n v r s c
                   w = Inl (Unauthorized, [])"
        by (rule request_unauthorized)
      with re show False by simp
    qed
    from re own obtain evs c' w' where
      body: "requestAttestationsWithSubsidy_body reenter env wallet identifier n v r s
               (c\<lparr>guardCounter := guardCounter c + 1\<rparr>) w [] = Inr (evs, c', w', t)"
      and moved: "guardCounter c' \<noteq> guardCounter c + 1"
      by (auto simp: request_owner split: sum.splits if_splits dest: body_Inl)
    from body_shape [OF body] have
      "length v = 2 \<and> length r = 2 \<and> length s = 2 \<and> n < maxSubsidisedAttestations c"
      by simp
    with own body moved show "sender = owner c \<and> length v = 2 \<and> length r = 2 \<and>
          length s = 2 \<and> n < maxSubsidisedAttestations c \<and>
          (\<exists>evs c' w'.
             requestAttestationsWithSubsidy_body reenter env wallet identifier n v r s
               (c\<lparr>guardCounter := guardCounter c + 1\<rparr>) w [] = Inr (evs, c', w', t) \<and>
             guardCounter c' \<noteq> guardCounter c + 1)"
      by blast
  qed
  from unauthorized malformed limit guard show ?thesis by (intro conjI)
qed

theorem precondition_order_witness:
  "requestAttestationsWithSubsidy (reenter_at 0 meteringLedger) meteringLedger 8 42 99 10
     [27] [1, 2] [3, 4] deployed 100 = Inl (Unauthorized, []) \<and>
   requestAttestationsWithSubsidy (reenter_at 0 meteringLedger) meteringLedger 7 42 99 10
     [27] [1, 2] [3, 4] (deployed\<lparr>guardCounter := 1\<rparr>) 100 = Inl (MalformedRequest, []) \<and>
   requestAttestationsWithSubsidy (reenter_at 0 meteringLedger) meteringLedger 7 42 99 10
     [27, 28] [1, 2] [3, 4] (deployed\<lparr>guardCounter := 1\<rparr>) 100 = Inl (LimitExceeded, []) \<and>
   failure_of (requestAttestationsWithSubsidy
     (reenter_at (Suc 0) (reenteringLedger (ReRequest 7 42 99 0 [27, 28] [1, 2] [3, 4])))
     (reenteringLedger (ReRequest 7 42 99 0 [27, 28] [1, 2] [3, 4]))
     7 42 99 5 [27, 28] [1, 2] [3, 4] deployed 100) = Some ReentrantCall \<and>
   length [27, 28 :: uint8] = 2 \<and> (5 :: uint256) < maxSubsidisedAttestations deployed \<and>
   Reentered (ReRequest 7 42 99 0 [27] [1, 2] [3, 4]) (Some MalformedRequest)
     \<in> set (calls_made (requestAttestationsWithSubsidy
         (reenter_at (Suc 0) (reenteringLedger (ReRequest 7 42 99 0 [27] [1, 2] [3, 4])))
         (reenteringLedger (ReRequest 7 42 99 0 [27] [1, 2] [3, 4]))
         7 42 99 5 [27, 28] [1, 2] [3, 4] deployed 100))"
proof -
  note order = precondition_order
  have a: "(8 :: address) \<noteq> owner deployed"
    by (simp add: deployed_def)
  have b: "(7 :: address) = owner (deployed\<lparr>guardCounter := 1\<rparr>) \<and>
           \<not> (length [27 :: uint8] = 2 \<and> length [1, 2 :: bytes32] = 2 \<and>
              length [3, 4 :: bytes32] = 2)"
    by (simp add: deployed_def)
  have d: "(7 :: address) = owner (deployed\<lparr>guardCounter := 1\<rparr>) \<and>
           length [27, 28 :: uint8] = 2 \<and> length [1, 2 :: bytes32] = 2 \<and>
           length [3, 4 :: bytes32] = 2 \<and>
           \<not> (10 :: uint256) < maxSubsidisedAttestations (deployed\<lparr>guardCounter := 1\<rparr>)"
    by (simp add: deployed_def)
  have r1: "requestAttestationsWithSubsidy (reenter_at 0 meteringLedger) meteringLedger 8 42 99
     10 [27] [1, 2] [3, 4] deployed 100 = Inl (Unauthorized, [])"
    by (rule order [THEN conjunct1, rule_format, OF a])
  have r2: "requestAttestationsWithSubsidy (reenter_at 0 meteringLedger) meteringLedger 7 42 99
     10 [27] [1, 2] [3, 4] (deployed\<lparr>guardCounter := 1\<rparr>) 100 = Inl (MalformedRequest, [])"
    by (rule order [THEN conjunct2, THEN conjunct1, rule_format, OF b])
  have r3: "requestAttestationsWithSubsidy (reenter_at 0 meteringLedger) meteringLedger 7 42 99
     10 [27, 28] [1, 2] [3, 4] (deployed\<lparr>guardCounter := 1\<rparr>) 100 = Inl (LimitExceeded, [])"
    by (rule order [THEN conjunct2, THEN conjunct2, THEN conjunct1, rule_format, OF d])
  have r4: "length [27, 28 :: uint8] = 2 \<and> (5 :: uint256) < maxSubsidisedAttestations deployed"
    using order [THEN conjunct2, THEN conjunct2, THEN conjunct2, rule_format,
        OF reentrant_owner_run]
    by blast
  have r5: "failure_of (requestAttestationsWithSubsidy
     (reenter_at (Suc 0) (reenteringLedger (ReRequest 7 42 99 0 [27, 28] [1, 2] [3, 4])))
     (reenteringLedger (ReRequest 7 42 99 0 [27, 28] [1, 2] [3, 4]))
     7 42 99 5 [27, 28] [1, 2] [3, 4] deployed 100) = Some ReentrantCall"
    unfolding reentrant_owner_run by simp
  have r6: "Reentered (ReRequest 7 42 99 0 [27] [1, 2] [3, 4]) (Some MalformedRequest)
     \<in> set (calls_made (requestAttestationsWithSubsidy
         (reenter_at (Suc 0) (reenteringLedger (ReRequest 7 42 99 0 [27] [1, 2] [3, 4])))
         (reenteringLedger (ReRequest 7 42 99 0 [27] [1, 2] [3, 4]))
         7 42 99 5 [27, 28] [1, 2] [3, 4] deployed 100))"
    unfolding reentrant_malformed_run by simp
  from r1 r2 r3 r4 r5 r6 show ?thesis by blast
qed

subsection \<open>The limit\<close>

text \<open>
  Two requests for exactly the limit that do not revert with \<open>LimitExceeded\<close>: one from
  a sender other than the owner, which reverts with \<open>Unauthorized\<close>, and one from the owner
  with one signature, which reverts with \<open>MalformedRequest\<close>.
\<close>

theorem limit_counterexample:
  "requestAttestationsWithSubsidy (reenter_at 0 meteringLedger) meteringLedger 8 42 99 10
     [27, 28] [1, 2] [3, 4] deployed 100 = Inl (Unauthorized, []) \<and>
   requestAttestationsWithSubsidy (reenter_at 0 meteringLedger) meteringLedger 7 42 99 10
     [27] [1, 2] [3, 4] deployed 100 = Inl (MalformedRequest, []) \<and>
   maxSubsidisedAttestations deployed \<le> 10"
  by (simp add: requestAttestationsWithSubsidy_def onlyOwner_def nonReentrant_def deployed_def
        requestAttestationsWithSubsidy_body_def bnd_def require_def ret_def revert_def)

text \<open>
  Claim C3, as the code has it. The limit is an exclusive bound. A request for the limit
  or more always reverts, and has called no other contract when it does; the revert is
  \<open>LimitExceeded\<close> when the sender is the owner and \<open>v\<close>, \<open>r\<close> and \<open>s\<close> have two
  entries each. A request for less than the limit never reverts with \<open>LimitExceeded\<close>.
\<close>

theorem limit_is_exclusive:
  "(maxSubsidisedAttestations c \<le> n \<longrightarrow>
      (\<exists>e. requestAttestationsWithSubsidy reenter env sender wallet identifier n v r s c w
             = Inl (e, [])) \<and>
      (sender = owner c \<and> length v = 2 \<and> length r = 2 \<and> length s = 2 \<longrightarrow>
         requestAttestationsWithSubsidy reenter env sender wallet identifier n v r s c w
           = Inl (LimitExceeded, []))) \<and>
   (n < maxSubsidisedAttestations c \<longrightarrow>
      (\<forall>t. requestAttestationsWithSubsidy reenter env sender wallet identifier n v r s c w
             \<noteq> Inl (LimitExceeded, t)))"
proof -
  have at_limit: "sender = owner c \<and> length v = 2 \<and> length r = 2 \<and> length s = 2 \<longrightarrow>
         requestAttestationsWithSubsidy reenter env sender wallet identifier n v r s c w
           = Inl (LimitExceeded, [])"
    if over: "maxSubsidisedAttestations c \<le> n"
  proof
    assume pre: "sender = owner c \<and> length v = 2 \<and> length r = 2 \<and> length s = 2"
    with over have "requestAttestationsWithSubsidy_body reenter env wallet identifier n v r s
        (c\<lparr>guardCounter := guardCounter c + 1\<rparr>) w [] = Inl (LimitExceeded, [])"
      by (intro body_limit) simp_all
    with pre show "requestAttestationsWithSubsidy reenter env sender wallet identifier n v r s
        c w = Inl (LimitExceeded, [])"
      by (simp add: request_owner)
  qed
  have fails: "\<exists>e. requestAttestationsWithSubsidy reenter env sender wallet identifier n v r s
         c w = Inl (e, [])"
    if over: "maxSubsidisedAttestations c \<le> n"
  proof (cases "sender = owner c")
    case False
    then show ?thesis by (simp add: request_unauthorized)
  next
    case own: True
    show ?thesis
    proof (cases "length v = 2 \<and> length r = 2 \<and> length s = 2")
      case True
      with own at_limit [OF over] show ?thesis by blast
    next
      case False
      then have "requestAttestationsWithSubsidy_body reenter env wallet identifier n v r s
          (c\<lparr>guardCounter := guardCounter c + 1\<rparr>) w [] = Inl (MalformedRequest, [])"
        by (rule body_malformed)
      with own show ?thesis by (simp add: request_owner)
    qed
  qed
  have below: "\<forall>t. requestAttestationsWithSubsidy reenter env sender wallet identifier n v r s
         c w \<noteq> Inl (LimitExceeded, t)"
    if lt: "n < maxSubsidisedAttestations c"
  proof (intro allI notI)
    fix t
    assume limit: "requestAttestationsWithSubsidy reenter env sender wallet identifier n v r s
        c w = Inl (LimitExceeded, t)"
    have own: "sender = owner c"
    proof (rule ccontr)
      assume "sender \<noteq> owner c"
      then have "requestAttestationsWithSubsidy reenter env sender wallet identifier n v r s c
                   w = Inl (Unauthorized, [])"
        by (rule request_unauthorized)
      with limit show False by simp
    qed
    from limit own have "requestAttestationsWithSubsidy_body reenter env wallet identifier
        n v r s (c\<lparr>guardCounter := guardCounter c + 1\<rparr>) w [] = Inl (LimitExceeded, t)"
      by (auto simp: request_owner split: sum.splits if_splits)
    from body_Inl_limit [OF this] lt show False by simp
  qed
  from at_limit fails below show ?thesis by blast
qed

theorem limit_is_exclusive_witness:
  "(\<exists>e. requestAttestationsWithSubsidy (reenter_at 0 meteringLedger) meteringLedger 8 42 99 10
          [27] [1, 2] [3, 4] deployed 100 = Inl (e, [])) \<and>
   requestAttestationsWithSubsidy (reenter_at 0 meteringLedger) meteringLedger 7 42 99 10
     [27, 28] [1, 2] [3, 4] deployed 100 = Inl (LimitExceeded, []) \<and>
   (\<forall>t. requestAttestationsWithSubsidy (reenter_at 0 meteringLedger) meteringLedger 7 42 99 9
          [27, 28] [1, 2] [3, 4] deployed 100 \<noteq> Inl (LimitExceeded, t))"
proof -
  note lim = limit_is_exclusive
  have at: "maxSubsidisedAttestations deployed \<le> 10"
    and below: "9 < maxSubsidisedAttestations deployed"
    by (simp_all add: deployed_def)
  have pre: "(7 :: address) = owner deployed \<and>
       length [27, 28 :: uint8] = 2 \<and> length [1, 2 :: bytes32] = 2 \<and>
       length [3, 4 :: bytes32] = 2"
    by (simp add: deployed_def)
  have r0: "\<exists>e. requestAttestationsWithSubsidy (reenter_at 0 meteringLedger) meteringLedger 8 42
          99 10 [27] [1, 2] [3, 4] deployed 100 = Inl (e, [])"
    by (rule lim [THEN conjunct1, rule_format, OF at, THEN conjunct1])
  have r1: "requestAttestationsWithSubsidy (reenter_at 0 meteringLedger) meteringLedger 7 42 99
      10 [27, 28] [1, 2] [3, 4] deployed 100 = Inl (LimitExceeded, [])"
    by (rule lim [THEN conjunct1, rule_format, OF at, THEN conjunct2, rule_format, OF pre])
  have r2: "\<forall>t. requestAttestationsWithSubsidy (reenter_at 0 meteringLedger) meteringLedger 7 42
          99 9 [27, 28] [1, 2] [3, 4] deployed 100 \<noteq> Inl (LimitExceeded, t)"
    by (rule lim [THEN conjunct2, THEN mp, OF below])
  from r0 r1 r2 show ?thesis by simp
qed

subsection \<open>The guard\<close>




subsection \<open>The fee\<close>

text \<open>
  Claim C5. When the registry and the fee lookups answer, \<open>calculateTotalFee\<close> returns
  the unit price times the number requested if that product fits in 256 bits, and the
  product it returns is then the exact one; if the product does not fit, it reverts with
  \<open>FeeOverflow\<close>. The unit price is the attestation request fee of the stable token: the
  function takes no identifier, so the fee is the same for every identifier.
\<close>

theorem calculateTotalFee_checked:
  assumes "registryAttestations env (registry c) w = Some attestations"
    and "registryStableToken env (registry c) w = Some stableToken"
    and "attestationRequestFee env attestations stableToken w = Some unitPrice"
  shows "(unat unitPrice * unat n < 2 ^ 256 \<longrightarrow>
            calculateTotalFee env n c w t =
              Inr (unitPrice * n, c, w,
                   t @ [GetAttestations (registry c), GetStableToken (registry c),
                        GetAttestationRequestFee attestations stableToken]) \<and>
            unat (unitPrice * n) = unat unitPrice * unat n) \<and>
         (2 ^ 256 \<le> unat unitPrice * unat n \<longrightarrow>
            calculateTotalFee env n c w t =
              Inl (FeeOverflow,
                   t @ [GetAttestations (registry c), GetStableToken (registry c),
                        GetAttestationRequestFee attestations stableToken]))"
proof (intro conjI impI)
  assume fits: "unat unitPrice * unat n < 2 ^ 256"
  with assms show "calculateTotalFee env n c w t =
              Inr (unitPrice * n, c, w,
                   t @ [GetAttestations (registry c), GetStableToken (registry c),
                        GetAttestationRequestFee attestations stableToken])"
    by (simp add: calculateTotalFee_def getAttestations_def getStableToken_def step_defs
          SafeMath_mul_checked)
  from fits show "unat (unitPrice * n) = unat unitPrice * unat n"
    by (simp add: unat_word_ariths)
next
  assume "2 ^ 256 \<le> unat unitPrice * unat n"
  with assms show "calculateTotalFee env n c w t =
              Inl (FeeOverflow,
                   t @ [GetAttestations (registry c), GetStableToken (registry c),
                        GetAttestationRequestFee attestations stableToken])"
    by (simp add: calculateTotalFee_def getAttestations_def getStableToken_def step_defs
          SafeMath_mul_checked)
qed

theorem calculateTotalFee_checked_witness:
  "calculateTotalFee meteringLedger 5 deployed 100 []
     = Inr (10, deployed, 100,
            [GetAttestations 9, GetStableToken 9, GetAttestationRequestFee 2 1]) \<and>
   calculateTotalFee meteringLedger (2 ^ 255) deployed 100 []
     = Inl (FeeOverflow, [GetAttestations 9, GetStableToken 9, GetAttestationRequestFee 2 1])"
proof -
  note fee = calculateTotalFee_checked
  have a: "registryAttestations meteringLedger (registry deployed) (100 :: uint256) = Some 2"
    and b: "registryStableToken meteringLedger (registry deployed) (100 :: uint256) = Some 1"
    and c: "attestationRequestFee meteringLedger 2 1 (100 :: uint256) = Some 2"
    by (simp_all add: meteringLedger_def)
  have fits: "unat (2 :: uint256) * unat (5 :: uint256) < 2 ^ 256" by simp
  have over: "2 ^ 256 \<le> unat (2 :: uint256) * unat (2 ^ 255 :: uint256)" by simp
  have r1: "calculateTotalFee meteringLedger 5 deployed 100 [] =
      Inr (2 * 5, deployed, 100,
           [] @ [GetAttestations (registry deployed), GetStableToken (registry deployed),
                 GetAttestationRequestFee 2 1])"
    using fee [OF a b c, THEN conjunct1, rule_format, OF fits] by simp
  have r2: "calculateTotalFee meteringLedger (2 ^ 255) deployed 100 [] =
      Inl (FeeOverflow,
           [] @ [GetAttestations (registry deployed), GetStableToken (registry deployed),
                 GetAttestationRequestFee 2 1])"
    by (rule fee [OF a b c, THEN conjunct2, rule_format, OF over])
  from r1 r2 show ?thesis by (simp add: deployed_def)
qed

section \<open>Properties of the owner-only functions\<close>

text \<open>
  Claim C6. \<open>setMaxSubsidisedAttestations\<close> reverts with \<open>Unauthorized\<close> when the sender
  is not the owner, and with \<open>InvalidLimit\<close> when the owner passes a limit that is not
  positive; both leave the storage as it was. When the owner passes a positive limit, it is
  stored and \<open>MaxSubsidisedAttestationsSet\<close> is emitted.
\<close>

theorem setMaxSubsidisedAttestations_guarded:
  "(sender \<noteq> owner c \<longrightarrow>
      setMaxSubsidisedAttestations sender newMax c = Inl Unauthorized \<and>
      commit c (setMaxSubsidisedAttestations sender newMax c) = c) \<and>
   (sender = owner c \<and> newMax \<le> 0 \<longrightarrow>
      setMaxSubsidisedAttestations sender newMax c = Inl InvalidLimit \<and>
      commit c (setMaxSubsidisedAttestations sender newMax c) = c) \<and>
   (sender = owner c \<and> 0 < newMax \<longrightarrow>
      setMaxSubsidisedAttestations sender newMax c =
        Inr (c\<lparr>maxSubsidisedAttestations := newMax\<rparr>, [MaxSubsidisedAttestationsSet newMax]) \<and>
      maxSubsidisedAttestations (commit c (setMaxSubsidisedAttestations sender newMax c))
        = newMax)"
  by (auto simp: setMaxSubsidisedAttestations_def onlyOwner_def)

theorem setMaxSubsidisedAttestations_guarded_witness:
  "setMaxSubsidisedAttestations 8 20 deployed = Inl Unauthorized \<and>
   commit deployed (setMaxSubsidisedAttestations 8 20 deployed) = deployed \<and>
   setMaxSubsidisedAttestations 7 0 deployed = Inl InvalidLimit \<and>
   commit deployed (setMaxSubsidisedAttestations 7 0 deployed) = deployed \<and>
   setMaxSubsidisedAttestations 7 20 deployed =
     Inr (deployed\<lparr>maxSubsidisedAttestations := 20\<rparr>, [MaxSubsidisedAttestationsSet 20]) \<and>
   maxSubsidisedAttestations (commit deployed (setMaxSubsidisedAttestations 7 20 deployed)) = 20"
proof -
  note guarded = setMaxSubsidisedAttestations_guarded
  have a: "(8 :: address) \<noteq> owner deployed" by (simp add: deployed_def)
  have b: "(7 :: address) = owner deployed \<and> (0 :: uint256) \<le> 0" by (simp add: deployed_def)
  have c: "(7 :: address) = owner deployed \<and> (0 :: uint256) < 20" by (simp add: deployed_def)
  have r1: "setMaxSubsidisedAttestations 8 20 deployed = Inl Unauthorized \<and>
            commit deployed (setMaxSubsidisedAttestations 8 20 deployed) = deployed"
    by (rule guarded [THEN conjunct1, rule_format, OF a])
  have r2: "setMaxSubsidisedAttestations 7 0 deployed = Inl InvalidLimit \<and>
            commit deployed (setMaxSubsidisedAttestations 7 0 deployed) = deployed"
    by (rule guarded [THEN conjunct2, THEN conjunct1, rule_format, OF b])
  have r3: "setMaxSubsidisedAttestations 7 20 deployed =
     Inr (deployed\<lparr>maxSubsidisedAttestations := 20\<rparr>, [MaxSubsidisedAttestationsSet 20]) \<and>
   maxSubsidisedAttestations (commit deployed (setMaxSubsidisedAttestations 7 20 deployed)) = 20"
    by (rule guarded [THEN conjunct2, THEN conjunct2, rule_format, OF c])
  from r1 r2 r3 show ?thesis by simp
qed

text \<open>
  Claim C7. In every storage reachable from a successful initialisation, the limit is
  strictly positive.
\<close>

theorem maxSubsidisedAttestations_positive:
  "reachable c \<Longrightarrow> 0 < maxSubsidisedAttestations c"
proof (induction rule: reachable.induct)
  case (reach_initialize c0 sender registryAddress newMax c evs)
  then show ?case using initialize_Inr by fastforce
next
  case (reach_initialize_again c sender registryAddress newMax)
  then show ?case by (simp add: initialize_commit_positive)
next
  case (reach_setMax c sender newMax)
  then show ?case by (simp add: setMax_commit_positive)
next
  case (reach_setRegistry c sender registryAddress)
  then show ?case by (simp add: setRegistry_commit_max)
next
  case (reach_request c w depth env sender wallet ident n v r s)
  then show ?case by (simp add: request_positive)
next
  case (reach_owner c newOwner)
  then show ?case by simp
qed

theorem maxSubsidisedAttestations_positive_witness:
  "reachable (commit deployed (setMaxSubsidisedAttestations 7 20 deployed)) \<and>
   0 < maxSubsidisedAttestations (commit deployed (setMaxSubsidisedAttestations 7 20 deployed))"
proof -
  have reach: "reachable (commit deployed (setMaxSubsidisedAttestations 7 20 deployed))"
    using reachable_deployed by (rule reach_setMax)
  from reach maxSubsidisedAttestations_positive [OF reach] show ?thesis by simp
qed

text \<open>
  Claim C9. A request by anyone but the owner reverts with \<open>Unauthorized\<close>, whatever
  its arguments, the counter of the guard and the calls back of the other contracts: no
  check of the body has run, no other contract has been called, no event is emitted, and the
  storage and the ledger are unchanged.
\<close>

theorem requestAttestationsWithSubsidy_onlyOwner:
  "sender \<noteq> owner c \<Longrightarrow>
     requestAttestationsWithSubsidy reenter env sender wallet identifier n v r s c w
       = Inl (Unauthorized, []) \<and>
     settle (c, w) (requestAttestationsWithSubsidy reenter env sender wallet identifier n v r s
       c w) = (c, w) \<and>
     emitted (requestAttestationsWithSubsidy reenter env sender wallet identifier n v r s c w)
       = [] \<and>
     calls_made (requestAttestationsWithSubsidy reenter env sender wallet identifier n v r s
       c w) = []"
  by (simp add: request_unauthorized)

theorem requestAttestationsWithSubsidy_onlyOwner_witness:
  "(8 :: address) \<noteq> owner deployed \<and>
   requestAttestationsWithSubsidy (reenter_at 0 meteringLedger) meteringLedger 8 42 99 5
     [27, 28] [1, 2] [3, 4] deployed 100 = Inl (Unauthorized, []) \<and>
   settle (deployed, 100)
     (requestAttestationsWithSubsidy (reenter_at 0 meteringLedger) meteringLedger 8 42 99 5
        [27, 28] [1, 2] [3, 4] deployed 100) = (deployed, 100) \<and>
   emitted (requestAttestationsWithSubsidy (reenter_at 0 meteringLedger) meteringLedger 8 42 99
     5 [27, 28] [1, 2] [3, 4] deployed 100) = [] \<and>
   calls_made (requestAttestationsWithSubsidy (reenter_at 0 meteringLedger) meteringLedger 8 42
     99 5 [27, 28] [1, 2] [3, 4] deployed 100) = []"
proof -
  have a: "(8 :: address) \<noteq> owner deployed" by (simp add: deployed_def)
  have "requestAttestationsWithSubsidy (reenter_at 0 meteringLedger) meteringLedger 8 42 99 5
          [27, 28] [1, 2] [3, 4] deployed 100 = Inl (Unauthorized, []) \<and>
   settle (deployed, 100)
     (requestAttestationsWithSubsidy (reenter_at 0 meteringLedger) meteringLedger 8 42 99 5
        [27, 28] [1, 2] [3, 4] deployed 100) = (deployed, 100) \<and>
   emitted (requestAttestationsWithSubsidy (reenter_at 0 meteringLedger) meteringLedger 8 42 99
     5 [27, 28] [1, 2] [3, 4] deployed 100) = [] \<and>
   calls_made (requestAttestationsWithSubsidy (reenter_at 0 meteringLedger) meteringLedger 8 42
     99 5 [27, 28] [1, 2] [3, 4] deployed 100) = []"
    by (rule requestAttestationsWithSubsidy_onlyOwner [OF a])
  with a show ?thesis by blast
qed

section \<open>Properties of the request validation\<close>

text \<open>
  A body with no timestamp is accepted; a timestamp that is a number other than zero is
  accepted exactly when it is newer than the expiry window.
\<close>

lemma hasValidTimestamp_absent:
  "map_of body ''timestamp'' = None \<Longrightarrow> hasValidTimestamp now window body"
  by (simp add: hasValidTimestamp_def getProp_def)

lemma hasValidTimestamp_stale_rejected:
  "getProp body ''timestamp'' = JNumber t \<Longrightarrow> t \<noteq> 0 \<Longrightarrow> t \<le> of_int (now - window) \<Longrightarrow>
     \<not> hasValidTimestamp now window body"
  by (simp add: hasValidTimestamp_def)

lemma hasValidTimestamp_fresh_accepted:
  "getProp body ''timestamp'' = JNumber t \<Longrightarrow> of_int (now - window) < t \<Longrightarrow>
     hasValidTimestamp now window body"
  by (simp add: hasValidTimestamp_def)

text \<open>
  Claim C8. The timestamp 0 is a number older than any expiry window that has started, and
  \<open>hasValidTimestamp\<close> accepts it: \<open>!requestBody.timestamp\<close> is true of the number 0
  as it is of a missing field, so the comparison is never reached.
\<close>

theorem hasValidTimestamp_accepts_zero:
  "hasValidTimestamp now window ((''timestamp'', JNumber 0) # rest)"
  by (simp add: hasValidTimestamp_def getProp_def)

theorem hasValidTimestamp_accepts_zero_witness:
  "\<not> (0 :: real) > of_int (1600000000000 - 300000) \<and>
   hasValidTimestamp 1600000000000 300000 [(''timestamp'', JNumber 0)]"
proof -
  have "hasValidTimestamp 1600000000000 300000 [(''timestamp'', JNumber 0)]"
    by (rule hasValidTimestamp_accepts_zero)
  then show ?thesis by simp
qed

text \<open>
  Claim C10. \<open>isByte32\<close> compares half the length of the trimmed string, rounded down,
  with 32. A hash of 65 hexadecimal characters after its \<open>0x\<close> passes \<open>isByte32\<close>,
  \<open>hasValidPhoneNumberHash\<close> and \<open>phoneNumberHashIsValidIfExists\<close>.
\<close>

theorem isByte32_rounds_down:
  "(\<forall>hashedData. isByte32 hashedData = (length (trimLeading0x hashedData) div 2 = 32)) \<and>
   (\<exists>hashedPhoneNumber.
      length (trimLeading0x hashedPhoneNumber) = 65 \<and>
      set (trimLeading0x hashedPhoneNumber) \<subseteq> set ''0123456789abcdef'' \<and>
      isByte32 hashedPhoneNumber \<and>
      hasValidPhoneNumberHash [(''hashedPhoneNumber'', JString hashedPhoneNumber)]
        = Inr (JBool True) \<and>
      phoneNumberHashIsValidIfExists [(''hashedPhoneNumber'', JString hashedPhoneNumber)]
        = Inr (JBool True))"
proof (intro conjI allI)
  fix hashedData
  show "isByte32 hashedData = (length (trimLeading0x hashedData) div 2 = 32)"
    by (simp add: isByte32_def byteLength_hex_def)
next
  let ?h = "''0xaaaaaaaaaaaaaaaaaaaaaaaaaaaaaaaaaaaaaaaaaaaaaaaaaaaaaaaaaaaaaaaaa''"
  have trim: "trimLeading0x ?h
      = ''aaaaaaaaaaaaaaaaaaaaaaaaaaaaaaaaaaaaaaaaaaaaaaaaaaaaaaaaaaaaaaaaa''"
    by (simp add: trimLeading0x_def)
  have len: "length (trimLeading0x ?h) = 65" by (simp add: trim)
  have hex: "set (trimLeading0x ?h) \<subseteq> set ''0123456789abcdef''" by (simp add: trim)
  have b32: "isByte32 ?h" by (simp add: isByte32_def byteLength_hex_def len)
  have v1: "hasValidPhoneNumberHash [(''hashedPhoneNumber'', JString ?h)] = Inr (JBool True)"
    using b32 by (simp add: hasValidPhoneNumberHash_def getProp_def isByte32_of_def)
  have v2: "phoneNumberHashIsValidIfExists [(''hashedPhoneNumber'', JString ?h)]
              = Inr (JBool True)"
    using b32 by (simp add: phoneNumberHashIsValidIfExists_def getProp_def isByte32_of_def)
  from len hex b32 v1 v2 show "\<exists>hashedPhoneNumber.
      length (trimLeading0x hashedPhoneNumber) = 65 \<and>
      set (trimLeading0x hashedPhoneNumber) \<subseteq> set ''0123456789abcdef'' \<and>
      isByte32 hashedPhoneNumber \<and>
      hasValidPhoneNumberHash [(''hashedPhoneNumber'', JString hashedPhoneNumber)]
        = Inr (JBool True) \<and>
      phoneNumberHashIsValidIfExists [(''hashedPhoneNumber'', JString hashedPhoneNumber)]
        = Inr (JBool True)"
    by blast
qed

end
